theory Spec2Isabelle
  imports Main
begin

section \<open>The asynchronous mutex of \<^verbatim>\<open>lib/decorator/noConcurrent.js\<close>\<close>

text \<open>
  JavaScript runs the wrapper on one thread and suspends it only at an \<^verbatim>\<open>await\<close>.
  The embedding therefore is a state machine over the lock record
  (\<^verbatim>\<open>statusControl\<close>): one transition for the synchronous part of a call to the
  wrapper, one for the reaction that runs when the promise of the wrapped function has
  settled, and one for the continuation of a caller behind its \<^verbatim>\<open>await\<close>.
  Callers are told apart by a number; the \<^verbatim>\<open>resolve\<close> function stored in a
  listener is the number of the caller whose promise it resolves.
\<close>

datatype 'a jsval = Undefined | Val 'a

text \<open>How a promise has settled.\<close>

datatype 'a settled = Fulfilled "'a jsval" | Rejected "'a jsval"

text \<open>
  What \<^verbatim>\<open>oriFunc.apply(this, arguments)\<close> hands back: a promise, given with the
  way it settles later, or a value that is no promise (a usage error the source reports
  and tolerates).
\<close>

datatype 'a returned = APromise "'a settled" | NotPromise "'a jsval"

text \<open>The options bound by \<^verbatim>\<open>makeNoConcurrent\<close> and \<^verbatim>\<open>makeMutex\<close>.\<close>

record 'a opts =
  mode :: string
  discardRes :: "'a jsval"

record listener =
  block :: bool
  handler :: nat

text \<open>
  \<^verbatim>\<open>running\<close> and \<^verbatim>\<open>listeners\<close> are the two fields of the source. The other
  four fields observe the run: the callers for which \<^verbatim>\<open>oriFunc\<close> was invoked, in
  order; the invocations whose promise has not settled; the listeners whose handler was
  called (with the result it was called with) and whose caller has not continued yet;
  and how each wrapper call settled.
\<close>

record 'a statusControl =
  running :: bool
  listeners :: "listener list"
  invoked :: "nat list"
  pending :: "nat list"
  resolved :: "(listener \<times> 'a settled) list"
  settledCalls :: "(nat \<times> 'a settled) list"

definition idle :: "'a statusControl" where
  "idle = \<lparr>running = False, listeners = [], invoked = [], pending = [],
            resolved = [], settledCalls = []\<rparr>"

text \<open>
  \<^verbatim>\<open>handleRunFinish(res)\<close>: the loop takes the first listener off the queue, calls its
  handler with \<^verbatim>\<open>res\<close> and returns at once when the listener blocks, leaving
  \<^verbatim>\<open>running\<close> as it is; the lock is released only when the queue runs empty.
  A handler called with a promise makes the caller's own promise settle as that promise
  did, so the result is recorded as a \<^typ>\<open>'a settled\<close>.
\<close>

function handleRunFinish :: "'a settled \<Rightarrow> 'a statusControl \<Rightarrow> 'a statusControl" where
  "handleRunFinish res sc =
     (case listeners sc of
        [] \<Rightarrow> sc\<lparr>running := False\<rparr>
      | l # rest \<Rightarrow>
          (let sc' = sc\<lparr>listeners := rest, resolved := resolved sc @ [(l, res)]\<rparr>
           in if block l then sc' else handleRunFinish res sc'))"
  by pat_completeness auto
termination
  by (relation "measure (\<lambda>(res, sc). length (listeners sc))") auto

declare handleRunFinish.simps [simp del]

text \<open>
  The part of the wrapper behind the comment "operation starts": the lock is taken,
  \<^verbatim>\<open>oriFunc\<close> is invoked, and for a promise the release is left to its
  \<^verbatim>\<open>then\<close>/\<^verbatim>\<open>catch\<close> reaction; for another value \<^verbatim>\<open>handleRunFinish\<close> runs
  at once.
\<close>

definition invoke :: "(nat \<Rightarrow> 'a returned) \<Rightarrow> nat \<Rightarrow> 'a statusControl \<Rightarrow> 'a statusControl" where
  "invoke oriFunc c sc =
     (let sc1 = sc\<lparr>running := True, invoked := invoked sc @ [c]\<rparr>
      in case oriFunc c of
           APromise r \<Rightarrow> sc1\<lparr>pending := pending sc1 @ [c]\<rparr>
         | NotPromise v \<Rightarrow>
             (let sc2 = handleRunFinish (Fulfilled v) sc1
              in sc2\<lparr>settledCalls := settledCalls sc2 @ [(c, Fulfilled v)]\<rparr>))"

text \<open>
  A call of the wrapper, up to its first \<^verbatim>\<open>await\<close>. The \<^verbatim>\<open>switch\<close> on the mode
  is only reached while the lock is held.
\<close>

definition call :: "(nat \<Rightarrow> 'a returned) \<Rightarrow> 'a opts \<Rightarrow> nat \<Rightarrow> 'a statusControl \<Rightarrow> 'a statusControl" where
  "call oriFunc opts c sc =
     (if running sc then
        (if mode opts = ''discard'' then
           sc\<lparr>settledCalls := settledCalls sc @ [(c, Fulfilled (discardRes opts))]\<rparr>
         else if mode opts = ''merge'' then
           sc\<lparr>listeners := listeners sc @ [\<lparr>block = False, handler = c\<rparr>]\<rparr>
         else if mode opts = ''wait'' then
           sc\<lparr>listeners := listeners sc @ [\<lparr>block = True, handler = c\<rparr>]\<rparr>
         else sc\<lparr>settledCalls := settledCalls sc @ [(c, Fulfilled Undefined)]\<rparr>)
      else invoke oriFunc c sc)"

text \<open>
  The reaction registered on the promise of caller \<open>c\<close>: both the \<^verbatim>\<open>then\<close> and the
  \<^verbatim>\<open>catch\<close> branch call \<^verbatim>\<open>handleRunFinish(res)\<close>. The wrapper returned the same
  promise, so the call of \<open>c\<close> settles as it does.
\<close>

definition settle :: "(nat \<Rightarrow> 'a returned) \<Rightarrow> nat \<Rightarrow> 'a statusControl \<Rightarrow> 'a statusControl" where
  "settle oriFunc c sc =
     (if c \<in> set (pending sc) then
        (case oriFunc c of
           APromise r \<Rightarrow>
             handleRunFinish r
               (sc\<lparr>pending := remove1 c (pending sc),
                   settledCalls := settledCalls sc @ [(c, r)]\<rparr>)
         | NotPromise v \<Rightarrow> sc)
      else sc)"

text \<open>
  The continuation of caller \<open>c\<close> behind its \<^verbatim>\<open>await\<close>. In merge mode the awaited
  value is returned (or the awaited rejection thrown). In wait mode the awaited value is
  dropped and the caller goes on to invoke \<^verbatim>\<open>oriFunc\<close>; but an \<^verbatim>\<open>await\<close> of a
  promise that was resolved with a rejected promise throws, and nothing in the source
  catches it, so the call ends there with that rejection.
\<close>

definition resume :: "(nat \<Rightarrow> 'a returned) \<Rightarrow> nat \<Rightarrow> 'a statusControl \<Rightarrow> 'a statusControl" where
  "resume oriFunc c sc =
     (case find (\<lambda>(l, r). handler l = c) (resolved sc) of
        None \<Rightarrow> sc
      | Some (l, r) \<Rightarrow>
          (let sc1 = sc\<lparr>resolved := remove1 (l, r) (resolved sc)\<rparr>
           in if block l then
                (case r of
                   Rejected e \<Rightarrow> sc1\<lparr>settledCalls := settledCalls sc1 @ [(c, Rejected e)]\<rparr>
                 | Fulfilled v \<Rightarrow> invoke oriFunc c sc1)
              else sc1\<lparr>settledCalls := settledCalls sc1 @ [(c, r)]\<rparr>))"

datatype 'a event = Call "'a opts" nat | Settle nat | Resume nat

fun step :: "(nat \<Rightarrow> 'a returned) \<Rightarrow> 'a statusControl \<Rightarrow> 'a event \<Rightarrow> 'a statusControl" where
  "step oriFunc sc (Call opts c) = call oriFunc opts c sc"
| "step oriFunc sc (Settle c) = settle oriFunc c sc"
| "step oriFunc sc (Resume c) = resume oriFunc c sc"

definition run :: "(nat \<Rightarrow> 'a returned) \<Rightarrow> 'a event list \<Rightarrow> 'a statusControl \<Rightarrow> 'a statusControl" where
  "run oriFunc evs sc = foldl (step oriFunc) sc evs"

text \<open>The three exported decorators.\<close>

definition noConcurrent :: "'a opts" where
  "noConcurrent = \<lparr>mode = ''discard'', discardRes = Undefined\<rparr>"

definition mergingStep :: "'a opts" where
  "mergingStep = \<lparr>mode = ''merge'', discardRes = Undefined\<rparr>"

definition singleAisle :: "'a opts" where
  "singleAisle = \<lparr>mode = ''wait'', discardRes = Undefined\<rparr>"


text \<open>
  The events of a wait-mode queue in the order in which the runtime produces them: the
  running invocation settles, the next caller continues, and so on.
\<close>

fun wait_schedule :: "nat list \<Rightarrow> 'a event list" where
  "wait_schedule [] = []"
| "wait_schedule [c] = [Settle c]"
| "wait_schedule (c # c' # cs) = Settle c # Resume c' # wait_schedule (c' # cs)"

text \<open>
  The wait-mode callers that were woken and have not continued yet, and the invariant of
  the lock: at most one caller either holds a pending invocation or is about to start
  one, and none does while the lock is free.
\<close>

definition woken_blocking :: "'a statusControl \<Rightarrow> (listener \<times> 'a settled) list" where
  "woken_blocking sc = filter (\<lambda>(l, r). block l) (resolved sc)"

definition one_at_a_time :: "'a statusControl \<Rightarrow> bool" where
  "one_at_a_time sc =
     (length (pending sc) + length (woken_blocking sc) \<le> 1 \<and>
      (running sc \<or> (pending sc = [] \<and> woken_blocking sc = [])))"

section \<open>The navigator of \<^verbatim>\<open>lib/navigate/Navigator.js\<close>\<close>

subsection \<open>Pages, routes and the logical history\<close>

text \<open>
  A page instance as \<^verbatim>\<open>getCurrentPages()\<close> lists it. The navigator reads
  \<^verbatim>\<open>curPage.route||curPage.__route__\<close> only; \<open>route_legacy\<close> stands for
  \<^verbatim>\<open>__route__\<close>, and \<open>None\<close> for a field that is not set.
\<close>

record page =
  route :: "string option"
  route_legacy :: "string option"

definition js_or :: "string option \<Rightarrow> string option \<Rightarrow> string option" where
  "js_or a b = (case a of None \<Rightarrow> b | Some x \<Rightarrow> if x = [] then b else Some x)"

record Route =
  url :: string
  tainted :: bool
  savedPage :: "page option"

text \<open>
  Modelled from the spec: the class \<^verbatim>\<open>History\<close> (\<^verbatim>\<open>lib/navigate/History.js\<close>) is
  imported by the navigator and is not among the source files. The spec describes it as
  an ordered sequence of routes, index 0 the application root, of length at least 1 at all
  times, with a configured correction level. The root and the entries above it are kept
  apart, so that the sequence cannot be empty. The statements about the navigator use no
  more of the store than its length, its top entry and what \<^verbatim>\<open>back\<close> returns.
\<close>

record History =
  root :: Route
  above :: "Route list"
  correctLevel :: int

text \<open>Modelled from the spec: the getter \<^verbatim>\<open>History.routes\<close>, the whole sequence.\<close>

definition routes :: "History \<Rightarrow> Route list" where
  "routes h = root h # above h"

text \<open>Modelled from the spec: the getter \<^verbatim>\<open>History.length\<close>, the logical depth.\<close>

definition History_length :: "History \<Rightarrow> int" where
  "History_length h = int (length (routes h))"

text \<open>
  Modelled from the spec: \<^verbatim>\<open>History.savePage(index, page)\<close> "records a snapshot at a
  given logical index if eligible (guards against out-of-range or already-final
  indices)". An index is taken as eligible when it is in range and its entry holds no
  snapshot yet.
\<close>

definition History_savePage :: "int \<Rightarrow> page \<Rightarrow> History \<Rightarrow> History" where
  "History_savePage i p h =
     (if 0 \<le> i \<and> i < History_length h \<and> savedPage (routes h ! nat i) = None then
        (if i = 0 then h\<lparr>root := (root h)\<lparr>savedPage := Some p\<rparr>\<rparr>
         else h\<lparr>above := (above h)[nat i - 1 := (above h ! (nat i - 1))\<lparr>savedPage := Some p\<rparr>]\<rparr>)
      else h)"

text \<open>
  Modelled from the spec: \<^verbatim>\<open>History.open(route)\<close> "appends a new logical entry.
  Before appending, if the store's length has reached the correction level, saves a
  physical snapshot of the entry that is about to become vulnerable to eviction (the one
  two slots below the new top)". The snapshot is the physical page two slots below the
  place of the new page; \<open>pages\<close> is the physical stack at the time of the call.
\<close>

definition History_open :: "Route \<Rightarrow> page list \<Rightarrow> History \<Rightarrow> History" where
  "History_open r pages h =
     (let h1 = (if correctLevel h \<le> History_length h \<and> 2 \<le> length pages
                then History_savePage (History_length h - 2) (pages ! (length pages - 2)) h
                else h)
      in h1\<lparr>above := above h1 @ [r]\<rparr>)"

text \<open>
  Modelled from the spec: \<^verbatim>\<open>History.replace(route)\<close> "overwrites the top logical entry
  with a new one; does not change length".
\<close>

definition History_replace :: "Route \<Rightarrow> History \<Rightarrow> History" where
  "History_replace r h =
     (if above h = [] then h\<lparr>root := r\<rparr> else h\<lparr>above := butlast (above h) @ [r]\<rparr>)"

text \<open>
  Modelled from the spec: \<^verbatim>\<open>History.back({delta})\<close> "pops \<open>delta\<close> entries (minimum
  1, never popping past index 0) and returns the new top entry as the back-navigation
  target". The store only exposes the \<open>tainted\<close> flag of the entry.
\<close>

definition History_back :: "int \<Rightarrow> History \<Rightarrow> Route \<times> History" where
  "History_back delta h =
     (let h' = h\<lparr>above := take (length (above h) - nat (max 1 delta)) (above h)\<rparr>
      in (last (routes h'), h'))"

subsection \<open>The platform and the navigator's state\<close>

text \<open>The result object of a platform call, \<^verbatim>\<open>{succeeded, errMsg}\<close>.\<close>

record wxres =
  succeeded :: bool
  errMsg :: string

text \<open>
  What an operation can throw: a \<^verbatim>\<open>TypeError\<close> for a property read on
  \<^verbatim>\<open>undefined\<close>, the result object of a failed platform call, or whatever the
  page restore handler threw or rejected with.
\<close>

datatype error = TypeError | WxFail wxres | HandlerFail string

text \<open>
  The value of \<^verbatim>\<open>pageRestoreHandler({route, context})\<close>: the expression
  \<^verbatim>\<open>res && res.succeeded\<close> only tells a result that reports success from all others.
  The handler may return the result, return a promise of it, or throw.
\<close>

datatype restored = NoResult | Restored bool

datatype handled = Returns restored | Resolves restored | Rejects string | Throws string

record Config =
  enableCurtain :: bool
  curtainPage :: string
  enableTaintedRestore :: bool
  pageRestoreHandler :: "(Route \<Rightarrow> string \<Rightarrow> handled) option"
  MAX_LEVEL :: int

type_synonym params = "(string \<times> string) list option"

text \<open>
  The collaborators outside the repository, over a state \<open>'w\<close> of the platform that only
  they read and change: the physical stack, the promisified navigation calls
  (\<^verbatim>\<open>wxResolve.navigateTo\<close> always resolves with a result object; the calls through
  \<^verbatim>\<open>wxPromise\<close> resolve or reject), the two URL utilities, and the operating system
  found at start-up.
\<close>

record 'w platform =
  getCurrentPages :: "'w \<Rightarrow> page list"
  wx_navigateTo :: "string \<Rightarrow> 'w \<Rightarrow> wxres \<times> 'w"
  wx_redirectTo :: "string \<Rightarrow> 'w \<Rightarrow> (wxres + unit) \<times> 'w"
  wx_navigateBack :: "int \<Rightarrow> 'w \<Rightarrow> (wxres + unit) \<times> 'w"
  appendUrlParam :: "string \<Rightarrow> params \<Rightarrow> string"
  toAbsolutePath :: "string \<Rightarrow> string option \<Rightarrow> string"
  os :: string

text \<open>What the navigator does, in order: a log kept beside the state.\<close>

datatype action =
    HistoryOpen Route
  | HistoryReplace Route
  | HistorySavePage int page
  | HistoryBack int
  | WxNavigateTo string
  | WxRedirectTo string
  | WxNavigateBack int
  | Delay int
  | PageRestoreHandler Route string

text \<open>
  The static fields of the class, the lock \<^verbatim>\<open>navigate\<close> that \<^verbatim>\<open>navigateTo\<close>,
  \<^verbatim>\<open>reLaunch\<close> and \<^verbatim>\<open>switchTab\<close> share in \<^verbatim>\<open>globalStore\<close>, the lock of the
  decorated \<^verbatim>\<open>_finishActiveUnload\<close>, the log, and the state of the platform.
\<close>

record 'w Navigator =
  config :: Config
  history :: History
  activeUnload :: bool
  navigateLock :: "(error + wxres) statusControl"
  finishActiveUnloadLock :: "unit statusControl"
  trace :: "action list"
  world :: 'w

definition NAV_BUSY_REMAIN :: int where
  "NAV_BUSY_REMAIN = 300"

definition forcedRefresh :: params where
  "forcedRefresh = Some [(''_forcedRefresh'', ''true'')]"

text \<open>\<^verbatim>\<open>String.prototype.includes\<close>.\<close>

fun str_includes :: "string \<Rightarrow> string \<Rightarrow> bool" where
  "str_includes [] sub = (sub = [])"
| "str_includes (c # s) sub = (take (length sub) (c # s) = sub \<or> str_includes s sub)"

text \<open>
  \<^verbatim>\<open>await p; k\<close>: a rejection of the awaited promise leaves the function at once, with
  the state as it is then.
\<close>

definition await :: "(error + 'a) \<times> 's \<Rightarrow> ('s \<Rightarrow> (error + 'b) \<times> 's) \<Rightarrow> (error + 'b) \<times> 's" where
  "await p k = (case p of (Inl e, s) \<Rightarrow> (Inl e, s) | (Inr x, s) \<Rightarrow> k s)"

text \<open>
  Modelled from the spec: \<^verbatim>\<open>delay(ms)\<close> of \<^verbatim>\<open>lib/operationKit\<close> is not among the
  source files; the spec calls it a timed settle delay, a point where the operation is
  suspended. The wait is entered in the log.
\<close>

definition delay :: "int \<Rightarrow> 'w Navigator \<Rightarrow> 'w Navigator" where
  "delay ms s = s\<lparr>trace := trace s @ [Delay ms]\<rparr>"

subsection \<open>The physical operations\<close>

text \<open>
  The three promisified platform calls, as steps of the navigator: the call is logged and
  the platform moves on. \<^verbatim>\<open>wxResolve.navigateTo\<close> hands the result object back;
  an \<^verbatim>\<open>await\<close> of a \<^verbatim>\<open>wxPromise\<close> call throws what the call rejected with.
\<close>

definition wxResolve_navigateTo :: "'w platform \<Rightarrow> string \<Rightarrow> 'w Navigator \<Rightarrow> wxres \<times> 'w Navigator" where
  "wxResolve_navigateTo E u s =
     (fst (wx_navigateTo E u (world s)),
      s\<lparr>trace := trace s @ [WxNavigateTo u], world := snd (wx_navigateTo E u (world s))\<rparr>)"

definition wxPromise_redirectTo :: "'w platform \<Rightarrow> string \<Rightarrow> 'w Navigator \<Rightarrow> (error + unit) \<times> 'w Navigator" where
  "wxPromise_redirectTo E u s =
     (map_sum WxFail id (fst (wx_redirectTo E u (world s))),
      s\<lparr>trace := trace s @ [WxRedirectTo u], world := snd (wx_redirectTo E u (world s))\<rparr>)"

definition wxPromise_navigateBack :: "'w platform \<Rightarrow> int \<Rightarrow> 'w Navigator \<Rightarrow> (error + unit) \<times> 'w Navigator" where
  "wxPromise_navigateBack E delta s =
     (map_sum WxFail id (fst (wx_navigateBack E delta (world s))),
      s\<lparr>trace := trace s @ [WxNavigateBack delta], world := snd (wx_navigateBack E delta (world s))\<rparr>)"

text \<open>\<^verbatim>\<open>_secretReplace(route, {extraParams})\<close>; of the route only \<^verbatim>\<open>route.url\<close> is read.\<close>

definition secretReplace :: "'w platform \<Rightarrow> string \<Rightarrow> params \<Rightarrow> 'w Navigator \<Rightarrow> (error + unit) \<times> 'w Navigator" where
  "secretReplace E route_url extraParams s =
     await (wxPromise_redirectTo E (appendUrlParam E route_url extraParams) (s\<lparr>activeUnload := True\<rparr>))
       (\<lambda>s1. (Inr (), delay NAV_BUSY_REMAIN s1))"

text \<open>\<^verbatim>\<open>_secretBack({delta})\<close>.\<close>

definition secretBack :: "'w platform \<Rightarrow> int \<Rightarrow> 'w Navigator \<Rightarrow> (error + unit) \<times> 'w Navigator" where
  "secretBack E delta s =
     await (wxPromise_navigateBack E delta (s\<lparr>activeUnload := True\<rparr>))
       (\<lambda>s1. (Inr (), delay (if os E = ''ios'' then NAV_BUSY_REMAIN * 3 else NAV_BUSY_REMAIN) s1))"

text \<open>
  \<^verbatim>\<open>_secretOpen(route, {retryAfter, retryTimeout, extraParams})\<close>. The retry calls the
  function again with the delay doubled; with a delay that is not positive it would go
  on for as long as the platform reports the limit, so the function is partial.
\<close>

partial_function (option) secretOpen ::
  "'w platform \<Rightarrow> string \<Rightarrow> int \<Rightarrow> int \<Rightarrow> params \<Rightarrow> 'w Navigator \<Rightarrow> ((error + unit) \<times> 'w Navigator) option" where
  "secretOpen E route_url retryAfter retryTimeout extraParams s =
     (let openRes = fst (wxResolve_navigateTo E (appendUrlParam E route_url extraParams) s);
          s1 = snd (wxResolve_navigateTo E (appendUrlParam E route_url extraParams) s)
      in if succeeded openRes then Some (Inr (), delay NAV_BUSY_REMAIN s1)
         else if str_includes (errMsg openRes) ''limit exceed'' then
           (if MAX_LEVEL (config s1) \<le> int (length (getCurrentPages E (world s1))) then
              Some (secretReplace E route_url extraParams s1)
            else if retryAfter < retryTimeout then
              secretOpen E route_url (retryAfter * 2) retryTimeout extraParams (delay retryAfter s1)
            else Some (Inl (WxFail openRes), s1))
         else Some (Inl (WxFail openRes), s1))"

declare secretOpen.simps [code]

subsection \<open>Restoring page data\<close>

text \<open>
  \<^verbatim>\<open>_doLostRestore(route)\<close>: the handler is called and its value dropped; only a throw
  inside the call leaves the function.
\<close>

definition doLostRestore :: "Route \<Rightarrow> 'w Navigator \<Rightarrow> (error + unit) \<times> 'w Navigator" where
  "doLostRestore r s =
     (case pageRestoreHandler (config s) of
        None \<Rightarrow> (Inr (), s)
      | Some h \<Rightarrow>
          (let s1 = s\<lparr>trace := trace s @ [PageRestoreHandler r ''unloaded'']\<rparr>
           in case h r ''unloaded'' of
                Throws e \<Rightarrow> (Inl (HandlerFail e), s1)
              | Returns v \<Rightarrow> (Inr (), s1)
              | Resolves v \<Rightarrow> (Inr (), s1)
              | Rejects e \<Rightarrow> (Inr (), s1)))"

text \<open>\<^verbatim>\<open>res && res.succeeded\<close>.\<close>

definition reports_success :: "restored \<Rightarrow> bool" where
  "reports_success v = (case v of NoResult \<Rightarrow> False | Restored b \<Rightarrow> b)"

text \<open>
  \<^verbatim>\<open>_doTaintedRestore(route)\<close>: without a handler \<^verbatim>\<open>res\<close> is \<^verbatim>\<open>null\<close>; a
  promise is awaited, and the \<^verbatim>\<open>await\<close> of a rejected one throws.
\<close>

definition doTaintedRestore :: "'w platform \<Rightarrow> Route \<Rightarrow> 'w Navigator \<Rightarrow> (error + unit) \<times> 'w Navigator" where
  "doTaintedRestore E r s =
     (let reload = secretReplace E (url r) forcedRefresh
      in case pageRestoreHandler (config s) of
           None \<Rightarrow> reload s
         | Some h \<Rightarrow>
             (let s1 = s\<lparr>trace := trace s @ [PageRestoreHandler r ''tainted'']\<rparr>
              in case h r ''tainted'' of
                   Throws e \<Rightarrow> (Inl (HandlerFail e), s1)
                 | Rejects e \<Rightarrow> (Inl (HandlerFail e), s1)
                 | Returns v \<Rightarrow> if reports_success v then (Inr (), s1) else reload s1
                 | Resolves v \<Rightarrow> if reports_success v then (Inr (), s1) else reload s1))"

subsection \<open>Back\<close>

text \<open>
  \<^verbatim>\<open>_doBack(opts, {sysBack})\<close>, with \<open>delta\<close> for \<^verbatim>\<open>opts.delta\<close>. The depths are
  integers: the observed depth of an empty stack behind a system back is \<open>-1\<close>.
\<close>

definition doBack :: "'w platform \<Rightarrow> int \<Rightarrow> bool \<Rightarrow> 'w Navigator \<Rightarrow> ((error + unit) \<times> 'w Navigator) option" where
  "doBack E delta sysBack s =
     (let targetRoute = fst (History_back delta (history s));
          s1 = s\<lparr>history := snd (History_back delta (history s)),
                 trace := trace s @ [HistoryBack delta]\<rparr>;
          curLength = int (length (getCurrentPages E (world s1))) - (if sysBack then 1 else 0);
          targetCurtain = (enableCurtain (config s1) \<and>
                           History_length (history s1) = MAX_LEVEL (config s1) - 1);
          targetTainted = (enableTaintedRestore (config s1) \<and> tainted targetRoute)
      in if History_length (history s1) < curLength then
           Some (await (secretBack E (curLength - History_length (history s1)) s1)
                  (\<lambda>s2. if targetCurtain then
                          await (secretReplace E (url targetRoute) forcedRefresh s2)
                            (doLostRestore targetRoute)
                        else if targetTainted then doTaintedRestore E targetRoute s2
                        else (Inr (), s2)))
         else if History_length (history s1) = curLength then
           Some (if \<not> sysBack \<or> targetCurtain then
                   await (secretReplace E (url targetRoute) forcedRefresh s1)
                     (doLostRestore targetRoute)
                 else if targetTainted then doTaintedRestore E targetRoute s1
                 else (Inr (), s1))
         else
           (case (if sysBack
                  then secretOpen E (url targetRoute) NAV_BUSY_REMAIN 2000 forcedRefresh s1
                  else Some (secretReplace E (url targetRoute) forcedRefresh s1)) of
              None \<Rightarrow> None
            | Some p \<Rightarrow> Some (await p (doLostRestore targetRoute))))"

definition ok_result :: wxres where
  "ok_result = \<lparr>succeeded = True, errMsg = ''ok''\<rparr>"

text \<open>\<^verbatim>\<open>navigateBack(opts)\<close>, the body under its callback decorator.\<close>

definition navigateBack :: "'w platform \<Rightarrow> int \<Rightarrow> 'w Navigator \<Rightarrow> ((error + wxres) \<times> 'w Navigator) option" where
  "navigateBack E delta s =
     (case doBack E delta False s of
        None \<Rightarrow> None
      | Some p \<Rightarrow> Some (await p (\<lambda>s1. (Inr ok_result, s1))))"

subsection \<open>Open and replace\<close>

text \<open>
  The body of \<^verbatim>\<open>navigateTo(route)\<close>, lines 83 to 103; of the route only
  \<^verbatim>\<open>route.url\<close> is read. With an empty physical stack \<^verbatim>\<open>curPage\<close> is
  \<^verbatim>\<open>undefined\<close> and the read of \<^verbatim>\<open>curPage.route\<close> throws before anything else
  happens.
\<close>

definition navigateTo_body :: "'w platform \<Rightarrow> string \<Rightarrow> 'w Navigator \<Rightarrow> ((error + wxres) \<times> 'w Navigator) option" where
  "navigateTo_body E route_url s =
     (let curPages = getCurrentPages E (world s)
      in if curPages = [] then Some (Inl TypeError, s)
         else
          (let curPage = last curPages;
               r = \<lparr>url = toAbsolutePath E route_url (js_or (route curPage) (route_legacy curPage)),
                    tainted = False, savedPage = None\<rparr>;
               s1 = s\<lparr>history := History_open r curPages (history s),
                      trace := trace s @ [HistoryOpen r]\<rparr>;
               savePage_top = (\<lambda>s. s\<lparr>history := History_savePage (History_length (history s) - 2)
                                          (last curPages) (history s),
                              trace := trace s @ [HistorySavePage (History_length (history s) - 2)
                                                    (last curPages)]\<rparr>);
               succeed = (\<lambda>s. (Inr ok_result, s))
           in if enableCurtain (config s1) \<and> int (length curPages) = MAX_LEVEL (config s1) - 1 then
                (case secretReplace E (curtainPage (config s1)) None (savePage_top s1) of
                   (Inl e, s2) \<Rightarrow> Some (Inl e, s2)
                 | (Inr x, s2) \<Rightarrow>
                     (case secretOpen E route_url NAV_BUSY_REMAIN 2000 None s2 of
                        None \<Rightarrow> None
                      | Some p \<Rightarrow> Some (await p succeed)))
              else if int (length curPages) < MAX_LEVEL (config s1) then
                (case secretOpen E route_url NAV_BUSY_REMAIN 2000 None s1 of
                   None \<Rightarrow> None
                 | Some p \<Rightarrow> Some (await p succeed))
              else Some (await (secretReplace E route_url None (savePage_top s1)) succeed)))"

text \<open>
  \<^verbatim>\<open>navigateTo\<close> is decorated with
  \<^verbatim>\<open>@makeMutex({namespace: globalStore, mutexId: 'navigate', discardRes})\<close>: no mode is
  given, so the mode is the default, \<^verbatim>\<open>'discard'\<close>, and a call made while the lock is
  held returns the discard result at once.
\<close>

definition discarded :: wxres where
  "discarded = \<lparr>succeeded = False, errMsg = ''discarded by noConcurrent strategy''\<rparr>"

definition navigate_mutex :: "(error + wxres) opts" where
  "navigate_mutex = \<lparr>mode = ''discard'', discardRes = Val (Inr discarded)\<rparr>"

text \<open>
  The promise of an async body, as the wrapper sees it at the call (it only asks whether
  the value is a promise), and as it has settled when the body has run: fulfilled with the
  value returned or rejected with what was thrown.
\<close>

definition async_body :: "nat \<Rightarrow> (error + wxres) returned" where
  "async_body c = APromise (Fulfilled Undefined)"

definition settled_as :: "error + wxres \<Rightarrow> nat \<Rightarrow> (error + wxres) returned" where
  "settled_as r c =
     APromise (case r of Inl e \<Rightarrow> Rejected (Val (Inl e)) | Inr v \<Rightarrow> Fulfilled (Val (Inr v)))"

text \<open>
  \<^verbatim>\<open>navigateTo(route)\<close> as call number \<open>c\<close>, under the wrapper of the mutex: held lock,
  discard result and nothing else; free lock, the lock is taken, the body runs, and the
  reaction on its promise runs \<^verbatim>\<open>handleRunFinish\<close>, after a return and after a throw
  alike. The decorator \<^verbatim>\<open>@supportWXCallback\<close> around it only calls the callbacks of
  the route.
\<close>

definition navigateTo :: "'w platform \<Rightarrow> string \<Rightarrow> nat \<Rightarrow> 'w Navigator \<Rightarrow> ((error + wxres) \<times> 'w Navigator) option" where
  "navigateTo E route_url c s =
     (let s1 = s\<lparr>navigateLock := call async_body navigate_mutex c (navigateLock s)\<rparr>
      in if running (navigateLock s) then Some (Inr discarded, s1)
         else
          (case navigateTo_body E route_url s1 of
             None \<Rightarrow> None
           | Some (r, s2) \<Rightarrow>
               Some (r, s2\<lparr>navigateLock := settle (settled_as r) c (navigateLock s2)\<rparr>)))"

text \<open>\<^verbatim>\<open>redirectTo(route)\<close>, the body under its callback decorator.\<close>

definition redirectTo :: "'w platform \<Rightarrow> string \<Rightarrow> 'w Navigator \<Rightarrow> (error + wxres) \<times> 'w Navigator" where
  "redirectTo E route_url s =
     (let curPages = getCurrentPages E (world s)
      in if curPages = [] then (Inl TypeError, s)
         else
          (let curPage = last curPages;
               r = \<lparr>url = toAbsolutePath E route_url (js_or (route curPage) (route_legacy curPage)),
                    tainted = False, savedPage = None\<rparr>;
               s1 = s\<lparr>history := History_replace r (history s),
                      trace := trace s @ [HistoryReplace r]\<rparr>
           in await (secretReplace E route_url None s1) (\<lambda>s2. (Inr ok_result, s2))))"

subsection \<open>Page teardown\<close>

text \<open>
  \<^verbatim>\<open>_finishActiveUnload\<close> is decorated with \<^verbatim>\<open>@noConcurrent\<close>: a call \<open>c\<close> goes
  through the wrapper of the mutex, on a lock of its own. The body is entered when the
  wrapper finds the lock free; it first waits 300 ms.
\<close>

definition finishActiveUnload_op :: "nat \<Rightarrow> unit returned" where
  "finishActiveUnload_op c = APromise (Fulfilled Undefined)"

definition finishActiveUnload :: "nat \<Rightarrow> 'w Navigator \<Rightarrow> 'w Navigator" where
  "finishActiveUnload c s =
     (let s1 = s\<lparr>finishActiveUnloadLock :=
                    call finishActiveUnload_op noConcurrent c (finishActiveUnloadLock s)\<rparr>
      in if running (finishActiveUnloadLock s) then s1 else delay 300 s1)"

text \<open>
  The rest of the body of call \<open>c\<close>, once the 300 ms are over: the flag is cleared, the
  promise of the body fulfils and the wrapper releases the lock.
\<close>

definition finishActiveUnload_resume :: "nat \<Rightarrow> 'w Navigator \<Rightarrow> 'w Navigator" where
  "finishActiveUnload_resume c s =
     (if c \<in> set (pending (finishActiveUnloadLock s)) then
        s\<lparr>activeUnload := False,
          finishActiveUnloadLock := settle finishActiveUnload_op c (finishActiveUnloadLock s)\<rparr>
      else s)"

text \<open>
  \<^verbatim>\<open>onPageUnload()\<close>, as call number \<open>c\<close>. Neither promise is awaited: the function
  returns nothing, and a rejection of \<^verbatim>\<open>_doBack\<close> is dropped.
\<close>

definition onPageUnload :: "'w platform \<Rightarrow> nat \<Rightarrow> 'w Navigator \<Rightarrow> 'w Navigator option" where
  "onPageUnload E c s =
     (if activeUnload s then Some (finishActiveUnload c s)
      else map_option snd (doBack E 1 True s))"

text \<open>
  A burst of teardown notifications, numbered \<open>cs\<close>, each handled when the one before has
  returned.
\<close>

fun unloads :: "'w platform \<Rightarrow> nat list \<Rightarrow> 'w Navigator \<Rightarrow> 'w Navigator option" where
  "unloads E [] s = Some s"
| "unloads E (c # cs) s =
     (case onPageUnload E c s of None \<Rightarrow> None | Some s' \<Rightarrow> unloads E cs s')"

text \<open>The navigator after \<^verbatim>\<open>Navigator.config(options)\<close>, before any navigation.\<close>

definition configured :: "Config \<Rightarrow> 'w \<Rightarrow> 'w Navigator" where
  "configured cfg w =
     \<lparr>config = cfg,
      history = \<lparr>root = \<lparr>url = [], tainted = False, savedPage = None\<rparr>, above = [],
                 correctLevel = MAX_LEVEL cfg - 2\<rparr>,
      activeUnload = False, navigateLock = idle, finishActiveUnloadLock = idle,
      trace = [], world = w\<rparr>"


subsection \<open>Observations of the platform\<close>

text \<open>
  The platform is outside the repository, so a statement about a retry says what the
  platform answered. \<open>false_alarms E u cap n w\<close>: from the platform state \<open>w\<close>, each of
  the next \<open>n\<close> calls of \<^verbatim>\<open>wx.navigateTo\<close> with \<open>u\<close> fails with a message that
  contains "limit exceed", and the stack observed after it is below \<open>cap\<close>.
\<close>

fun false_alarms :: "'w platform \<Rightarrow> string \<Rightarrow> int \<Rightarrow> nat \<Rightarrow> 'w \<Rightarrow> bool" where
  "false_alarms E u cap 0 w = True"
| "false_alarms E u cap (Suc n) w =
     (\<not> succeeded (fst (wx_navigateTo E u w)) \<and>
      str_includes (errMsg (fst (wx_navigateTo E u w))) ''limit exceed'' \<and>
      int (length (getCurrentPages E (snd (wx_navigateTo E u w)))) < cap \<and>
      false_alarms E u cap n (snd (wx_navigateTo E u w)))"

section \<open>A simulated platform\<close>

text \<open>
  The scenarios of the spec run the navigator against a simulated platform: a stack of
  pages under a cap, with an error message that can be injected into
  \<^verbatim>\<open>wx.navigateTo\<close> or \<^verbatim>\<open>wx.redirectTo\<close>. It is used for concrete runs only; no
  general statement below depends on it.
\<close>

record sim =
  pages :: "page list"
  cap :: nat
  openFault :: "string option"
  replaceFault :: "string option"

definition sim_page :: "string \<Rightarrow> page" where
  "sim_page u = \<lparr>route = Some u, route_legacy = None\<rparr>"

definition simulator :: "sim platform" where
  "simulator =
     \<lparr>getCurrentPages = pages,
      wx_navigateTo = (\<lambda>u w.
        case openFault w of
          Some m \<Rightarrow> (\<lparr>succeeded = False, errMsg = m\<rparr>, w)
        | None \<Rightarrow>
            if length (pages w) < cap w
            then (\<lparr>succeeded = True, errMsg = ''navigateTo:ok''\<rparr>, w\<lparr>pages := pages w @ [sim_page u]\<rparr>)
            else (\<lparr>succeeded = False, errMsg = ''navigateTo:fail webview count limit exceed''\<rparr>, w)),
      wx_redirectTo = (\<lambda>u w.
        case replaceFault w of
          Some m \<Rightarrow> (Inl \<lparr>succeeded = False, errMsg = m\<rparr>, w)
        | None \<Rightarrow> (Inr (), w\<lparr>pages := butlast (pages w) @ [sim_page u]\<rparr>)),
      wx_navigateBack = (\<lambda>d w.
        (Inr (), w\<lparr>pages := take (max 1 (length (pages w) - nat d)) (pages w)\<rparr>)),
      appendUrlParam = (\<lambda>u ps.
        case ps of None \<Rightarrow> u | Some kvs \<Rightarrow> u @ concat (map (\<lambda>(k, v). ''?'' @ k @ ''='' @ v) kvs)),
      toAbsolutePath = (\<lambda>u base. u),
      os = ''ios''\<rparr>"

definition sim_config :: Config where
  "sim_config =
     \<lparr>enableCurtain = True, curtainPage = ''/pages/curtain/curtain'',
      enableTaintedRestore = True, pageRestoreHandler = None, MAX_LEVEL = 10\<rparr>"

definition sim_world :: "page list \<Rightarrow> string option \<Rightarrow> string option \<Rightarrow> sim" where
  "sim_world ps fault rfault = \<lparr>pages = ps, cap = 10, openFault = fault, replaceFault = rfault\<rparr>"

definition sim_pages :: "nat \<Rightarrow> page list" where
  "sim_pages n =
     take n (map sim_page
       [''/p0'', ''/p1'', ''/p2'', ''/p3'', ''/p4'', ''/p5'', ''/p6'', ''/p7'', ''/p8'', ''/p9''])"

definition sim_route :: "string \<Rightarrow> bool \<Rightarrow> Route" where
  "sim_route u t = \<lparr>url = u, tainted = t, savedPage = None\<rparr>"

text \<open>
  A navigator in the middle of a session: the logical entries above the root, the depth
  of the physical stack, and the page restore handler of the application.
\<close>

definition sim_navigator :: "Route list \<Rightarrow> nat \<Rightarrow> (Route \<Rightarrow> string \<Rightarrow> handled) option \<Rightarrow> sim Navigator" where
  "sim_navigator entries depth h =
     (configured (sim_config\<lparr>pageRestoreHandler := h\<rparr>) (sim_world (sim_pages depth) None None))
       \<lparr>history := \<lparr>root = sim_route [] False, above = entries, correctLevel = 8\<rparr>\<rparr>"

text \<open>Two page restore handlers: one reports that it failed, one returns a promise that rejects.\<close>

definition restore_fails :: "Route \<Rightarrow> string \<Rightarrow> handled" where
  "restore_fails r c = Returns (Restored False)"

definition restore_rejects :: "Route \<Rightarrow> string \<Rightarrow> handled" where
  "restore_rejects r c = Rejects ''restore failed''"

text \<open>
  A run of calls of \<^verbatim>\<open>navigateTo\<close>, numbered from \<open>c\<close> on, each made when the one
  before has returned.
\<close>

fun opens :: "'w platform \<Rightarrow> nat \<Rightarrow> string list \<Rightarrow> 'w Navigator \<Rightarrow> 'w Navigator option" where
  "opens E c [] s = Some s"
| "opens E c (u # us) s =
     (case navigateTo E u c s of None \<Rightarrow> None | Some (r, s') \<Rightarrow> opens E (Suc c) us s')"

section \<open>Properties of the mutex\<close>

lemma handleRunFinish_Nil:
  "listeners sc = [] \<Longrightarrow> handleRunFinish res sc = sc\<lparr>running := False\<rparr>"
  by (subst handleRunFinish.simps) simp

lemma handleRunFinish_Cons:
  "listeners sc = l # rest \<Longrightarrow>
   handleRunFinish res sc =
     (if block l then sc\<lparr>listeners := rest, resolved := resolved sc @ [(l, res)]\<rparr>
      else handleRunFinish res (sc\<lparr>listeners := rest, resolved := resolved sc @ [(l, res)]\<rparr>))"
  by (subst handleRunFinish.simps) (simp add: Let_def)

lemma run_Nil: "run f [] sc = sc"
  by (simp add: run_def)

lemma run_Cons: "run f (ev # evs) sc = run f evs (step f sc ev)"
  by (simp add: run_def)

lemma run_append: "run f (xs @ ys) sc = run f ys (run f xs sc)"
  by (simp add: run_def)

lemma handleRunFinish_nonblocking:
  "\<forall>l \<in> set (listeners sc). \<not> block l \<Longrightarrow>
   handleRunFinish r sc =
     sc\<lparr>running := False, listeners := [],
        resolved := resolved sc @ map (\<lambda>l. (l, r)) (listeners sc)\<rparr>"
proof (induction "listeners sc" arbitrary: sc)
  case Nil
  then show ?case by (simp add: handleRunFinish_Nil)
next
  case (Cons l rest)
  from Cons.hyps(2) have ls: "listeners sc = l # rest" by simp
  with Cons.prems have nb: "\<not> block l" by simp
  let ?sc' = "sc\<lparr>listeners := rest, resolved := resolved sc @ [(l, r)]\<rparr>"
  have "handleRunFinish r sc = handleRunFinish r ?sc'"
    using ls nb by (simp add: handleRunFinish_Cons)
  also have "\<dots> = ?sc'\<lparr>running := False, listeners := [],
        resolved := resolved ?sc' @ map (\<lambda>l. (l, r)) (listeners ?sc')\<rparr>"
    using Cons.prems ls by (intro Cons.hyps(1)) simp_all
  finally show ?case using ls by simp
qed

lemma run_merge_calls:
  "running sc \<Longrightarrow>
   run f (map (Call mergingStep) cs) sc =
     sc\<lparr>listeners := listeners sc @ map (\<lambda>c. \<lparr>block = False, handler = c\<rparr>) cs\<rparr>"
proof (induction cs arbitrary: sc)
  case Nil
  then show ?case by (simp add: run_Nil)
next
  case (Cons c cs)
  then show ?case by (simp add: run_Cons call_def mergingStep_def)
qed

lemma run_merge_resumes:
  "distinct cs \<Longrightarrow>
   resolved sc = map (\<lambda>c. (\<lparr>block = False, handler = c\<rparr>, r)) cs \<Longrightarrow>
   run f (map Resume cs) sc =
     sc\<lparr>resolved := [], settledCalls := settledCalls sc @ map (\<lambda>c. (c, r)) cs\<rparr>"
proof (induction cs arbitrary: sc)
  case Nil
  then show ?case by (simp add: run_Nil)
next
  case (Cons c cs)
  then show ?case by (simp add: run_Cons resume_def)
qed

text \<open>
  Claim C1. Merge mode: caller \<open>c0\<close> finds the lock free and starts the wrapped
  operation; the callers \<open>cs\<close> arrive while it runs. When the promise of \<open>c0\<close> has
  settled with \<open>r\<close> (fulfilled or rejected) and the waiting callers have continued, the
  wrapped operation was invoked once, for \<open>c0\<close>; every call settled with \<open>r\<close> itself;
  and the lock is free again with an empty queue.
\<close>

theorem mergingStep_shares_one_invocation:
  assumes "distinct (c0 # cs)" and "oriFunc c0 = APromise r"
  shows "run oriFunc (Call mergingStep c0 # map (Call mergingStep) cs @ Settle c0 # map Resume cs) idle =
    \<lparr>running = False, listeners = [], invoked = [c0], pending = [], resolved = [],
     settledCalls = (c0, r) # map (\<lambda>c. (c, r)) cs\<rparr>"
proof -
  let ?s1 = "\<lparr>running = True, listeners = [], invoked = [c0], pending = [c0],
              resolved = [], settledCalls = []\<rparr> :: 'a statusControl"
  let ?s2 = "\<lparr>running = True, listeners = map (\<lambda>c. \<lparr>block = False, handler = c\<rparr>) cs,
              invoked = [c0], pending = [c0], resolved = [], settledCalls = []\<rparr> :: 'a statusControl"
  let ?s3 = "\<lparr>running = False, listeners = [], invoked = [c0], pending = [],
              resolved = map (\<lambda>c. (\<lparr>block = False, handler = c\<rparr>, r)) cs,
              settledCalls = [(c0, r)]\<rparr> :: 'a statusControl"
  have a: "call oriFunc mergingStep c0 idle = ?s1"
    using assms(2) by (simp add: call_def invoke_def idle_def)
  have b: "run oriFunc (map (Call mergingStep) cs) ?s1 = ?s2"
    by (simp add: run_merge_calls)
  have c: "settle oriFunc c0 ?s2 = ?s3"
    using assms(2) by (simp add: settle_def handleRunFinish_nonblocking comp_def)
  have d: "run oriFunc (map Resume cs) ?s3 =
      ?s3\<lparr>resolved := [], settledCalls := settledCalls ?s3 @ map (\<lambda>c. (c, r)) cs\<rparr>"
    using assms(1) by (intro run_merge_resumes) simp_all
  show ?thesis
    by (simp only: run_Cons run_append step.simps a b c d) simp
qed

lemma stuck_step:
  assumes "running sc" "pending sc = []" "resolved sc = []"
  shows "running (step f sc ev) \<and> pending (step f sc ev) = [] \<and> resolved (step f sc ev) = [] \<and>
         invoked (step f sc ev) = invoked sc"
  using assms by (cases ev) (simp_all add: call_def settle_def resume_def)

lemma stuck_run:
  "running sc \<Longrightarrow> pending sc = [] \<Longrightarrow> resolved sc = [] \<Longrightarrow>
   invoked (run f evs sc) = invoked sc \<and> running (run f evs sc)"
proof (induction evs arbitrary: sc)
  case Nil
  then show ?case by (simp add: run_Nil)
next
  case (Cons ev evs)
  from stuck_step [OF Cons.prems, of f ev] Cons.IH [of "step f sc ev"]
  show ?case by (simp add: run_Cons)
qed

text \<open>
  Claim C2. Wait mode, three concurrent calls, the first invocation rejects. The second
  caller is woken with the rejected promise, its \<^verbatim>\<open>await\<close> throws, and it never
  invokes the wrapped operation nor releases the lock. Whatever happens afterwards
  (\<open>evs\<close>), the wrapped operation has been invoked once, not three times, and the lock
  stays held.
\<close>

theorem singleAisle_rejection_strands_queue:
  "invoked (run (\<lambda>c. APromise (if c = 0 then Rejected e else Fulfilled v))
      ([Call singleAisle 0, Call singleAisle 1, Call singleAisle 2, Settle 0, Resume 1] @ evs) idle) = [0]
   \<and> running (run (\<lambda>c. APromise (if c = 0 then Rejected e else Fulfilled v))
      ([Call singleAisle 0, Call singleAisle 1, Call singleAisle 2, Settle 0, Resume 1] @ evs) idle)"
proof -
  let ?f = "\<lambda>c::nat. APromise (if c = 0 then Rejected e else Fulfilled v)"
  let ?stuck = "\<lparr>running = True, listeners = [\<lparr>block = True, handler = 2\<rparr>], invoked = [0],
      pending = [], resolved = [],
      settledCalls = [(0, Rejected e), (1, Rejected e)]\<rparr> :: 'a statusControl"
  have "run ?f [Call singleAisle 0, Call singleAisle 1, Call singleAisle 2, Settle 0, Resume 1] idle = ?stuck"
    by (simp add: run_def call_def invoke_def settle_def resume_def idle_def singleAisle_def
        handleRunFinish_Cons)
  moreover have "invoked (run ?f evs ?stuck) = invoked ?stuck \<and> running (run ?f evs ?stuck)"
    by (rule stuck_run) simp_all
  ultimately show ?thesis
    unfolding run_append by simp
qed

text \<open>
  Claim C3. The same two wait-mode calls, once with a first invocation that fulfils and
  once with one that rejects. After a fulfilment the woken caller takes the lock over and
  invokes the wrapped operation (it is pending); after a rejection the woken caller ends
  with that rejection, nothing is pending, and the lock is still held.
\<close>

theorem rejection_wakes_waiter_without_takeover:
  "run (\<lambda>c. APromise (Fulfilled v)) [Call singleAisle 0, Call singleAisle 1, Settle 0, Resume 1] idle =
     \<lparr>running = True, listeners = [], invoked = [0, 1], pending = [1], resolved = [],
      settledCalls = [(0, Fulfilled v)]\<rparr>
   \<and> run (\<lambda>c. APromise (Rejected e)) [Call singleAisle 0, Call singleAisle 1, Settle 0, Resume 1] idle =
     \<lparr>running = True, listeners = [], invoked = [0], pending = [], resolved = [],
      settledCalls = [(0, Rejected e), (1, Rejected e)]\<rparr>"
  by (simp add: run_def call_def invoke_def settle_def resume_def idle_def singleAisle_def
        handleRunFinish_Cons)

theorem mergingStep_shares_one_invocation_witness:
  "distinct [0, 1, 2 :: nat] \<and>
   run (\<lambda>c. APromise (Rejected (Val (7 :: nat))))
     [Call mergingStep 0, Call mergingStep 1, Call mergingStep 2, Settle 0, Resume 1, Resume 2] idle =
    \<lparr>running = False, listeners = [], invoked = [0], pending = [], resolved = [],
     settledCalls = [(0, Rejected (Val 7)), (1, Rejected (Val 7)), (2, Rejected (Val 7))]\<rparr>"
  using mergingStep_shares_one_invocation
    [of 0 "[1, 2]" "\<lambda>c. APromise (Rejected (Val (7 :: nat)))" "Rejected (Val 7)"]
  by simp



subsection \<open>Wait mode when nothing rejects\<close>

text \<open>
  With invocations that all fulfil, wait mode serves the callers one after the other in
  the order of their arrival; and in every run, with or without rejections, at most one
  invocation is pending at any time.
\<close>

lemma run_wait_calls:
  "running sc \<Longrightarrow>
   run f (map (Call singleAisle) cs) sc =
     sc\<lparr>listeners := listeners sc @ map (\<lambda>c. \<lparr>block = True, handler = c\<rparr>) cs\<rparr>"
proof (induction cs arbitrary: sc)
  case Nil
  then show ?case by (simp add: run_Nil)
next
  case (Cons c cs)
  then show ?case by (simp add: run_Cons call_def singleAisle_def)
qed

lemma run_wait_schedule:
  "\<forall>c \<in> set (c # cs). f c = APromise (Fulfilled (v c)) \<Longrightarrow>
   run f (wait_schedule (c # cs))
     \<lparr>running = True, listeners = map (\<lambda>c. \<lparr>block = True, handler = c\<rparr>) cs,
      invoked = ivk @ [c], pending = [c], resolved = [], settledCalls = st\<rparr> =
     \<lparr>running = False, listeners = [], invoked = ivk @ c # cs, pending = [], resolved = [],
      settledCalls = st @ map (\<lambda>c. (c, Fulfilled (v c))) (c # cs)\<rparr>"
proof (induction cs arbitrary: c ivk st)
  case Nil
  then show ?case
    by (simp add: run_Cons run_Nil settle_def handleRunFinish_Nil)
next
  case (Cons c' cs)
  have "run f (wait_schedule (c # c' # cs))
     \<lparr>running = True, listeners = map (\<lambda>c. \<lparr>block = True, handler = c\<rparr>) (c' # cs),
      invoked = ivk @ [c], pending = [c], resolved = [], settledCalls = st\<rparr> =
    run f (wait_schedule (c' # cs))
     \<lparr>running = True, listeners = map (\<lambda>c. \<lparr>block = True, handler = c\<rparr>) cs,
      invoked = (ivk @ [c]) @ [c'], pending = [c'], resolved = [],
      settledCalls = st @ [(c, Fulfilled (v c))]\<rparr>"
    using Cons.prems
    by (simp add: run_Cons settle_def resume_def invoke_def handleRunFinish_Cons)
  also have "\<dots> = \<lparr>running = False, listeners = [], invoked = (ivk @ [c]) @ c' # cs, pending = [],
      resolved = [],
      settledCalls = (st @ [(c, Fulfilled (v c))]) @ map (\<lambda>c. (c, Fulfilled (v c))) (c' # cs)\<rparr>"
    using Cons.prems by (intro Cons.IH) simp
  finally show ?case by simp
qed

lemma singleAisle_serves_in_order:
  assumes "\<forall>c \<in> set (c0 # cs). oriFunc c = APromise (Fulfilled (v c))"
  shows "run oriFunc (map (Call singleAisle) (c0 # cs) @ wait_schedule (c0 # cs)) idle =
    \<lparr>running = False, listeners = [], invoked = c0 # cs, pending = [], resolved = [],
     settledCalls = map (\<lambda>c. (c, Fulfilled (v c))) (c0 # cs)\<rparr>"
proof -
  let ?s1 = "\<lparr>running = True, listeners = [], invoked = [c0], pending = [c0],
              resolved = [], settledCalls = []\<rparr> :: 'a statusControl"
  let ?s2 = "\<lparr>running = True, listeners = map (\<lambda>c. \<lparr>block = True, handler = c\<rparr>) cs,
              invoked = [c0], pending = [c0], resolved = [], settledCalls = []\<rparr> :: 'a statusControl"
  have a: "call oriFunc singleAisle c0 idle = ?s1"
    using assms by (simp add: call_def invoke_def idle_def)
  have b: "run oriFunc (map (Call singleAisle) cs) ?s1 = ?s2"
    by (simp add: run_wait_calls)
  have c: "run oriFunc (wait_schedule (c0 # cs)) ?s2 =
      \<lparr>running = False, listeners = [], invoked = c0 # cs, pending = [], resolved = [],
       settledCalls = map (\<lambda>c. (c, Fulfilled (v c))) (c0 # cs)\<rparr>"
    using run_wait_schedule [OF assms, of "[]" "[]"] by simp
  show ?thesis
    by (simp only: list.map run_Cons run_append step.simps a b c)
qed

lemma handleRunFinish_one_at_a_time:
  "running sc \<Longrightarrow> pending sc = [] \<Longrightarrow> woken_blocking sc = [] \<Longrightarrow>
   one_at_a_time (handleRunFinish r sc) \<and> pending (handleRunFinish r sc) = [] \<and>
   invoked (handleRunFinish r sc) = invoked sc"
proof (induction "listeners sc" arbitrary: sc)
  case Nil
  then show ?case by (simp add: handleRunFinish_Nil one_at_a_time_def woken_blocking_def)
next
  case (Cons l rest)
  from Cons.hyps(2) have ls: "listeners sc = l # rest" by simp
  let ?sc' = "sc\<lparr>listeners := rest, resolved := resolved sc @ [(l, r)]\<rparr>"
  show ?case
  proof (cases "block l")
    case True
    with ls Cons.prems show ?thesis
      by (simp add: handleRunFinish_Cons one_at_a_time_def woken_blocking_def)
  next
    case False
    have "one_at_a_time (handleRunFinish r ?sc') \<and> pending (handleRunFinish r ?sc') = [] \<and>
        invoked (handleRunFinish r ?sc') = invoked ?sc'"
      using Cons.prems False ls by (intro Cons.hyps(1)) (simp_all add: woken_blocking_def)
    with ls False show ?thesis by (simp add: handleRunFinish_Cons)
  qed
qed

lemma invoke_one_at_a_time:
  "pending sc = [] \<Longrightarrow> woken_blocking sc = [] \<Longrightarrow> one_at_a_time (invoke f c sc)"
proof (cases "f c")
  case (APromise r)
  assume "pending sc = []" "woken_blocking sc = []"
  with APromise show ?thesis
    by (simp add: invoke_def one_at_a_time_def woken_blocking_def)
next
  case (NotPromise v)
  assume a: "pending sc = []" "woken_blocking sc = []"
  let ?sc1 = "sc\<lparr>running := True, invoked := invoked sc @ [c]\<rparr>"
  from a have "one_at_a_time (handleRunFinish (Fulfilled v) ?sc1)"
    by (intro handleRunFinish_one_at_a_time [THEN conjunct1]) (simp_all add: woken_blocking_def)
  with NotPromise show ?thesis
    by (simp add: invoke_def one_at_a_time_def woken_blocking_def Let_def)
qed

lemma step_one_at_a_time:
  assumes inv: "one_at_a_time sc"
  shows "one_at_a_time (step f sc ev)"
proof (cases ev)
  case (Call opts c)
  show ?thesis
  proof (cases "running sc")
    case True
    with inv Call show ?thesis
      by (simp add: call_def one_at_a_time_def woken_blocking_def)
  next
    case False
    with inv have "pending sc = []" "woken_blocking sc = []"
      by (simp_all add: one_at_a_time_def)
    with False Call show ?thesis by (simp add: call_def invoke_one_at_a_time)
  qed
next
  case (Settle c)
  show ?thesis
  proof (cases "c \<in> set (pending sc)")
    case False
    with inv Settle show ?thesis by (simp add: settle_def)
  next
    case True
    then have ne: "pending sc \<noteq> []" by auto
    from inv ne have "length (pending sc) = 1" "woken_blocking sc = []" "running sc"
      by (cases "pending sc"; auto simp: one_at_a_time_def)+
    with True have p: "pending sc = [c]" "woken_blocking sc = []" "running sc"
      by (cases "pending sc"; auto)+
    show ?thesis
    proof (cases "f c")
      case (NotPromise v)
      with inv Settle show ?thesis by (simp add: settle_def)
    next
      case (APromise r)
      let ?sc1 = "sc\<lparr>pending := remove1 c (pending sc), settledCalls := settledCalls sc @ [(c, r)]\<rparr>"
      from p have "one_at_a_time (handleRunFinish r ?sc1)"
        by (intro handleRunFinish_one_at_a_time [THEN conjunct1]) (simp_all add: woken_blocking_def)
      with APromise Settle True show ?thesis by (simp add: settle_def)
    qed
  qed
next
  case (Resume c)
  show ?thesis
  proof (cases "find (\<lambda>(l, r). handler l = c) (resolved sc)")
    case None
    with inv Resume show ?thesis by (simp add: resume_def)
  next
    case (Some lr)
    obtain l r where lr: "lr = (l, r)" by (cases lr)
    from Some lr have mem: "(l, r) \<in> set (resolved sc)"
      by (auto simp: find_Some_iff in_set_conv_nth)
    let ?sc1 = "sc\<lparr>resolved := remove1 (l, r) (resolved sc)\<rparr>"
    show ?thesis
    proof (cases "block l")
      case False
      then have "woken_blocking ?sc1 = woken_blocking sc"
        by (induction "resolved sc" arbitrary: sc) (auto simp: woken_blocking_def filter_remove1)
      with inv have "one_at_a_time (?sc1\<lparr>settledCalls := settledCalls ?sc1 @ [(c, r)]\<rparr>)"
        by (simp add: one_at_a_time_def woken_blocking_def)
      with Some lr False Resume show ?thesis by (simp add: resume_def)
    next
      case True
      with mem have "(l, r) \<in> set (woken_blocking sc)" by (simp add: woken_blocking_def)
      with inv have wb: "woken_blocking sc = [(l, r)]" "pending sc = []" "running sc"
        by (cases "woken_blocking sc"; auto simp: one_at_a_time_def)+
      have "woken_blocking ?sc1 = remove1 (l, r) (woken_blocking sc)"
        using True by (simp add: woken_blocking_def filter_remove1)
      with wb have wb1: "woken_blocking ?sc1 = []" "pending ?sc1 = []" "running ?sc1" by simp_all
      show ?thesis
      proof (cases r)
        case (Rejected e)
        from wb1 have "one_at_a_time (?sc1\<lparr>settledCalls := settledCalls ?sc1 @ [(c, Rejected e)]\<rparr>)"
          by (simp add: one_at_a_time_def woken_blocking_def)
        with Some lr True Rejected Resume show ?thesis by (simp add: resume_def)
      next
        case (Fulfilled v)
        from wb1 have "one_at_a_time (invoke f c ?sc1)" by (intro invoke_one_at_a_time)
        with Some lr True Fulfilled Resume show ?thesis by (simp add: resume_def)
      qed
    qed
  qed
qed

lemma never_two_in_flight:
  "length (pending (run f evs idle)) \<le> 1"
proof -
  have "one_at_a_time sc \<Longrightarrow> one_at_a_time (run f evs sc)" for sc :: "'a statusControl"
    by (induction evs arbitrary: sc) (simp_all add: run_Nil run_Cons step_one_at_a_time)
  moreover have "one_at_a_time (idle :: 'a statusControl)"
    by (simp add: one_at_a_time_def woken_blocking_def idle_def)
  ultimately have "one_at_a_time (run f evs idle)" by blast
  then show ?thesis by (simp add: one_at_a_time_def)
qed

section \<open>Properties of the navigator\<close>

subsection \<open>Opening a page physically\<close>

lemma secretOpen_succeeded:
  "succeeded (fst (wxResolve_navigateTo E (appendUrlParam E route_url x) s)) \<Longrightarrow>
   secretOpen E route_url ra rt x s =
     Some (Inr (), delay NAV_BUSY_REMAIN (snd (wxResolve_navigateTo E (appendUrlParam E route_url x) s)))"
  by (subst secretOpen.simps) (simp add: Let_def)

lemma secretOpen_other_failure:
  "\<not> succeeded (fst (wxResolve_navigateTo E (appendUrlParam E route_url x) s)) \<Longrightarrow>
   \<not> str_includes (errMsg (fst (wxResolve_navigateTo E (appendUrlParam E route_url x) s))) ''limit exceed'' \<Longrightarrow>
   secretOpen E route_url ra rt x s =
     Some (Inl (WxFail (fst (wxResolve_navigateTo E (appendUrlParam E route_url x) s))),
           snd (wxResolve_navigateTo E (appendUrlParam E route_url x) s))"
  by (subst secretOpen.simps) (simp add: Let_def)

lemma secretOpen_fallback:
  "\<not> succeeded (fst (wxResolve_navigateTo E (appendUrlParam E route_url x) s)) \<Longrightarrow>
   str_includes (errMsg (fst (wxResolve_navigateTo E (appendUrlParam E route_url x) s))) ''limit exceed'' \<Longrightarrow>
   MAX_LEVEL (config s) \<le>
     int (length (getCurrentPages E (world (snd (wxResolve_navigateTo E (appendUrlParam E route_url x) s))))) \<Longrightarrow>
   secretOpen E route_url ra rt x s =
     Some (secretReplace E route_url x (snd (wxResolve_navigateTo E (appendUrlParam E route_url x) s)))"
  by (subst secretOpen.simps) (simp add: Let_def wxResolve_navigateTo_def)

lemma secretOpen_false_alarm:
  "\<not> succeeded (fst (wxResolve_navigateTo E (appendUrlParam E route_url x) s)) \<Longrightarrow>
   str_includes (errMsg (fst (wxResolve_navigateTo E (appendUrlParam E route_url x) s))) ''limit exceed'' \<Longrightarrow>
   int (length (getCurrentPages E (world (snd (wxResolve_navigateTo E (appendUrlParam E route_url x) s)))))
     < MAX_LEVEL (config s) \<Longrightarrow>
   secretOpen E route_url ra rt x s =
     (if ra < rt then
        secretOpen E route_url (ra * 2) rt x
          (delay ra (snd (wxResolve_navigateTo E (appendUrlParam E route_url x) s)))
      else Some (Inl (WxFail (fst (wxResolve_navigateTo E (appendUrlParam E route_url x) s))),
                 snd (wxResolve_navigateTo E (appendUrlParam E route_url x) s)))"
  by (subst secretOpen.simps) (simp add: Let_def wxResolve_navigateTo_def)

lemma secretOpen_ladder:
  assumes alarm: "false_alarms E (appendUrlParam E route_url x) (MAX_LEVEL (config s)) 4 (world s)"
  shows "\<exists>res s'. secretOpen E route_url NAV_BUSY_REMAIN 2000 x s = Some (Inl (WxFail res), s') \<and>
        \<not> succeeded res \<and>
        trace s' = trace s @
          [WxNavigateTo (appendUrlParam E route_url x), Delay 300,
           WxNavigateTo (appendUrlParam E route_url x), Delay 600,
           WxNavigateTo (appendUrlParam E route_url x), Delay 1200,
           WxNavigateTo (appendUrlParam E route_url x)]"
proof -
  let ?u = "appendUrlParam E route_url x"
  let ?a = "\<lambda>t. snd (wxResolve_navigateTo E ?u t)"
  let ?s1 = "delay 300 (?a s)"
  let ?s2 = "delay 600 (?a ?s1)"
  let ?s3 = "delay 1200 (?a ?s2)"
  have step: "secretOpen E route_url ra 2000 x t =
     (if ra < 2000 then secretOpen E route_url (ra * 2) 2000 x (delay ra (?a t))
      else Some (Inl (WxFail (fst (wxResolve_navigateTo E ?u t))), ?a t))"
    if "config t = config s" "false_alarms E ?u (MAX_LEVEL (config s)) (Suc n) (world t)" for ra t n
    using that by (intro secretOpen_false_alarm) (simp_all add: wxResolve_navigateTo_def)
  have a0: "false_alarms E ?u (MAX_LEVEL (config s)) (Suc 3) (world s)"
    using alarm by (simp add: eval_nat_numeral)
  have a1: "false_alarms E ?u (MAX_LEVEL (config s)) (Suc 2) (world ?s1)"
    using alarm by (simp add: eval_nat_numeral delay_def wxResolve_navigateTo_def)
  have a2: "false_alarms E ?u (MAX_LEVEL (config s)) (Suc 1) (world ?s2)"
    using alarm by (simp add: eval_nat_numeral delay_def wxResolve_navigateTo_def)
  have a3: "false_alarms E ?u (MAX_LEVEL (config s)) (Suc 0) (world ?s3)"
    using alarm by (simp add: eval_nat_numeral delay_def wxResolve_navigateTo_def)
  have c1: "config ?s1 = config s" by (simp add: delay_def wxResolve_navigateTo_def)
  have c2: "config ?s2 = config s" by (simp add: delay_def wxResolve_navigateTo_def)
  have c3: "config ?s3 = config s" by (simp add: delay_def wxResolve_navigateTo_def)
  have "secretOpen E route_url NAV_BUSY_REMAIN 2000 x s = secretOpen E route_url 600 2000 x ?s1"
    by (subst step [OF refl a0]) (simp_all add: NAV_BUSY_REMAIN_def)
  also have "\<dots> = secretOpen E route_url 1200 2000 x ?s2"
    by (subst step [OF c1 a1]) simp
  also have "\<dots> = secretOpen E route_url 2400 2000 x ?s3"
    by (subst step [OF c2 a2]) simp
  also have "\<dots> = Some (Inl (WxFail (fst (wxResolve_navigateTo E ?u ?s3))), ?a ?s3)"
    by (subst step [OF c3 a3]) simp
  finally have "secretOpen E route_url NAV_BUSY_REMAIN 2000 x s =
      Some (Inl (WxFail (fst (wxResolve_navigateTo E ?u ?s3))), ?a ?s3)" .
  moreover have "\<not> succeeded (fst (wxResolve_navigateTo E ?u ?s3))"
    using a3 by (simp add: wxResolve_navigateTo_def)
  moreover have "trace (?a ?s3) = trace s @
          [WxNavigateTo ?u, Delay 300, WxNavigateTo ?u, Delay 600,
           WxNavigateTo ?u, Delay 1200, WxNavigateTo ?u]"
    by (simp add: delay_def wxResolve_navigateTo_def)
  ultimately show ?thesis by blast
qed

lemma secretReplace_trace:
  "\<exists>tr. trace (snd (secretReplace E u x s)) = trace s @ WxRedirectTo (appendUrlParam E u x) # tr \<and>
        (tr = [] \<or> tr = [Delay NAV_BUSY_REMAIN])"
  by (cases "fst (wx_redirectTo E (appendUrlParam E u x) (world s))")
     (simp_all add: secretReplace_def wxPromise_redirectTo_def await_def delay_def)

text \<open>
  Claim C4. The retry policy of \<^verbatim>\<open>_secretOpen\<close>, for a failed
  \<^verbatim>\<open>wx.navigateTo\<close>. First part: when the message contains "limit exceed" and the
  stack observed afterwards is at or above \<^verbatim>\<open>MAX_LEVEL\<close>, the result is that of
  \<^verbatim>\<open>_secretReplace\<close> on the same route, whose first act is the physical replace.
  Second part: with the default delays (300 ms, ceiling 2000 ms), when the platform
  raises the alarm four times with the stack below the cap, the page is tried four
  times with waits of 300, 600 and 1200 ms in between, and the last failure is thrown
  (the next wait would be 2400 ms). Third part: any other failure is thrown after the
  one attempt, with no wait.
\<close>

theorem secretOpen_retry_policy:
  "(\<not> succeeded (fst (wxResolve_navigateTo E (appendUrlParam E route_url x) s)) \<and>
    str_includes (errMsg (fst (wxResolve_navigateTo E (appendUrlParam E route_url x) s))) ''limit exceed'' \<and>
    MAX_LEVEL (config s) \<le>
      int (length (getCurrentPages E (world (snd (wxResolve_navigateTo E (appendUrlParam E route_url x) s)))))
    \<longrightarrow>
      secretOpen E route_url ra rt x s =
        Some (secretReplace E route_url x (snd (wxResolve_navigateTo E (appendUrlParam E route_url x) s))) \<and>
      (\<exists>tr. trace (snd (secretReplace E route_url x
                    (snd (wxResolve_navigateTo E (appendUrlParam E route_url x) s)))) =
            trace s @ [WxNavigateTo (appendUrlParam E route_url x),
                       WxRedirectTo (appendUrlParam E route_url x)] @ tr))
   \<and>
   (false_alarms E (appendUrlParam E route_url x) (MAX_LEVEL (config s)) 4 (world s)
    \<longrightarrow>
      (\<exists>res s'. secretOpen E route_url NAV_BUSY_REMAIN 2000 x s = Some (Inl (WxFail res), s') \<and>
         \<not> succeeded res \<and>
         trace s' = trace s @
           [WxNavigateTo (appendUrlParam E route_url x), Delay 300,
            WxNavigateTo (appendUrlParam E route_url x), Delay 600,
            WxNavigateTo (appendUrlParam E route_url x), Delay 1200,
            WxNavigateTo (appendUrlParam E route_url x)]))
   \<and>
   (\<not> succeeded (fst (wxResolve_navigateTo E (appendUrlParam E route_url x) s)) \<and>
    \<not> str_includes (errMsg (fst (wxResolve_navigateTo E (appendUrlParam E route_url x) s))) ''limit exceed''
    \<longrightarrow>
      secretOpen E route_url ra rt x s =
        Some (Inl (WxFail (fst (wxResolve_navigateTo E (appendUrlParam E route_url x) s))),
              s\<lparr>trace := trace s @ [WxNavigateTo (appendUrlParam E route_url x)],
                 world := snd (wx_navigateTo E (appendUrlParam E route_url x) (world s))\<rparr>))"
proof (intro conjI impI)
  let ?u = "appendUrlParam E route_url x"
  let ?s1 = "snd (wxResolve_navigateTo E ?u s)"
  assume h: "\<not> succeeded (fst (wxResolve_navigateTo E ?u s)) \<and>
    str_includes (errMsg (fst (wxResolve_navigateTo E ?u s))) ''limit exceed'' \<and>
    MAX_LEVEL (config s) \<le> int (length (getCurrentPages E (world ?s1)))"
  then show "secretOpen E route_url ra rt x s = Some (secretReplace E route_url x ?s1)"
    by (simp add: secretOpen_fallback)
  from secretReplace_trace [of E route_url x ?s1]
  show "\<exists>tr. trace (snd (secretReplace E route_url x ?s1)) =
      trace s @ [WxNavigateTo ?u, WxRedirectTo ?u] @ tr"
    by (auto simp: wxResolve_navigateTo_def)
next
  assume "false_alarms E (appendUrlParam E route_url x) (MAX_LEVEL (config s)) 4 (world s)"
  then show "\<exists>res s'. secretOpen E route_url NAV_BUSY_REMAIN 2000 x s = Some (Inl (WxFail res), s') \<and>
         \<not> succeeded res \<and>
         trace s' = trace s @
           [WxNavigateTo (appendUrlParam E route_url x), Delay 300,
            WxNavigateTo (appendUrlParam E route_url x), Delay 600,
            WxNavigateTo (appendUrlParam E route_url x), Delay 1200,
            WxNavigateTo (appendUrlParam E route_url x)]"
    by (rule secretOpen_ladder)
next
  let ?u = "appendUrlParam E route_url x"
  assume "\<not> succeeded (fst (wxResolve_navigateTo E ?u s)) \<and>
    \<not> str_includes (errMsg (fst (wxResolve_navigateTo E ?u s))) ''limit exceed''"
  then show "secretOpen E route_url ra rt x s =
        Some (Inl (WxFail (fst (wxResolve_navigateTo E ?u s))),
              s\<lparr>trace := trace s @ [WxNavigateTo ?u],
                 world := snd (wx_navigateTo E ?u (world s))\<rparr>)"
    by (simp add: secretOpen_other_failure) (simp add: wxResolve_navigateTo_def)
qed

lemmas sim_defs = simulator_def sim_config_def sim_world_def sim_pages_def sim_page_def configured_def idle_def

theorem secretOpen_retry_policy_witness:
  "(\<exists>s'. secretOpen simulator ''/b'' NAV_BUSY_REMAIN 2000 None
           (configured sim_config (sim_world (sim_pages 10) None None)) = Some (Inr (), s') \<and>
         trace s' = [WxNavigateTo ''/b'', WxRedirectTo ''/b'', Delay 300])
   \<and>
   (false_alarms simulator ''/b'' 10 4 (sim_world (sim_pages 3) (Some ''navigateTo:fail limit exceed'') None) \<and>
    (\<exists>res s'. secretOpen simulator ''/b'' NAV_BUSY_REMAIN 2000 None
           (configured sim_config (sim_world (sim_pages 3) (Some ''navigateTo:fail limit exceed'') None)) =
             Some (Inl (WxFail res), s') \<and>
         trace s' = [WxNavigateTo ''/b'', Delay 300, WxNavigateTo ''/b'', Delay 600,
                     WxNavigateTo ''/b'', Delay 1200, WxNavigateTo ''/b'']))
   \<and>
   (\<exists>s'. secretOpen simulator ''/b'' NAV_BUSY_REMAIN 2000 None
           (configured sim_config (sim_world (sim_pages 3) (Some ''navigateTo:fail page not found'') None)) =
             Some (Inl (WxFail \<lparr>succeeded = False, errMsg = ''navigateTo:fail page not found''\<rparr>), s') \<and>
         trace s' = [WxNavigateTo ''/b''])"
proof (intro conjI)
  let ?full = "configured sim_config (sim_world (sim_pages 10) None None)"
  let ?alarm = "configured sim_config (sim_world (sim_pages 3) (Some ''navigateTo:fail limit exceed'') None)"
  let ?other = "configured sim_config (sim_world (sim_pages 3) (Some ''navigateTo:fail page not found'') None)"
  show "\<exists>s'. secretOpen simulator ''/b'' NAV_BUSY_REMAIN 2000 None ?full = Some (Inr (), s') \<and>
         trace s' = [WxNavigateTo ''/b'', WxRedirectTo ''/b'', Delay 300]"
    using secretOpen_retry_policy [of simulator "''/b''" None ?full NAV_BUSY_REMAIN 2000, THEN conjunct1]
    by (simp add: sim_defs wxResolve_navigateTo_def secretReplace_def wxPromise_redirectTo_def
        await_def delay_def NAV_BUSY_REMAIN_def)
  show al: "false_alarms simulator ''/b'' 10 4 (sim_world (sim_pages 3) (Some ''navigateTo:fail limit exceed'') None)"
    by (simp add: sim_defs eval_nat_numeral)
  show "\<exists>res s'. secretOpen simulator ''/b'' NAV_BUSY_REMAIN 2000 None ?alarm = Some (Inl (WxFail res), s') \<and>
         trace s' = [WxNavigateTo ''/b'', Delay 300, WxNavigateTo ''/b'', Delay 600,
                     WxNavigateTo ''/b'', Delay 1200, WxNavigateTo ''/b'']"
    using secretOpen_retry_policy [of simulator "''/b''" None ?alarm NAV_BUSY_REMAIN 2000,
        THEN conjunct2, THEN conjunct1] al
    by (simp add: sim_defs) blast
  show "\<exists>s'. secretOpen simulator ''/b'' NAV_BUSY_REMAIN 2000 None ?other =
             Some (Inl (WxFail \<lparr>succeeded = False, errMsg = ''navigateTo:fail page not found''\<rparr>), s') \<and>
         trace s' = [WxNavigateTo ''/b'']"
    using secretOpen_retry_policy [of simulator "''/b''" None ?other NAV_BUSY_REMAIN 2000,
        THEN conjunct2, THEN conjunct2]
    by (simp add: sim_defs wxResolve_navigateTo_def)
qed





lemma secretOpen_returns:
  "0 < ra \<Longrightarrow> \<exists>y. secretOpen E route_url ra rt x s = Some y"
proof (induction "nat (rt - ra)" arbitrary: ra s rule: less_induct)
  case less
  let ?u = "appendUrlParam E route_url x"
  let ?res = "fst (wxResolve_navigateTo E ?u s)"
  let ?s1 = "snd (wxResolve_navigateTo E ?u s)"
  show ?case
  proof (cases "\<not> succeeded ?res \<and> str_includes (errMsg ?res) ''limit exceed'' \<and>
      \<not> MAX_LEVEL (config ?s1) \<le> int (length (getCurrentPages E (world ?s1))) \<and> ra < rt")
    case True
    from True less.prems have "nat (rt - ra * 2) < nat (rt - ra)" by simp
    moreover from less.prems have "0 < ra * 2" by simp
    ultimately obtain y where "secretOpen E route_url (ra * 2) rt x (delay ra ?s1) = Some y"
      using less.hyps by blast
    with True show ?thesis
      by (subst secretOpen.simps) (simp add: Let_def)
  next
    case False
    then show ?thesis
      by (subst secretOpen.simps) (auto simp: Let_def)
  qed
qed

lemma secretReplace_frame:
  "history (snd (secretReplace E u x s)) = history s"
  "config (snd (secretReplace E u x s)) = config s"
  "finishActiveUnloadLock (snd (secretReplace E u x s)) = finishActiveUnloadLock s"
  by (cases "fst (wx_redirectTo E (appendUrlParam E u x) (world s))";
      simp add: secretReplace_def wxPromise_redirectTo_def await_def delay_def)+

lemma secretOpen_frame:
  assumes "secretOpen E route_url ra rt x s = Some y"
  shows "history (snd y) = history s \<and> config (snd y) = config s \<and>
   (\<exists>tr. trace (snd y) = trace s @ WxNavigateTo (appendUrlParam E route_url x) # tr)"
proof (rule secretOpen.raw_induct [where P = "\<lambda>E route_url ra rt x s y.
    history (snd y) = history s \<and> config (snd y) = config s \<and>
    (\<exists>tr. trace (snd y) = trace s @ WxNavigateTo (appendUrlParam E route_url x) # tr)", OF _ assms])
  fix f :: "'a platform \<Rightarrow> string \<Rightarrow> int \<Rightarrow> int \<Rightarrow> params \<Rightarrow> 'a Navigator \<Rightarrow> ((error + unit) \<times> 'a Navigator) option"
  fix E :: "'a platform" and s :: "'a Navigator" and route_url ra rt x y
  let ?u = "appendUrlParam E route_url x"
  let ?res = "fst (wxResolve_navigateTo E ?u s)"
  let ?s1 = "snd (wxResolve_navigateTo E ?u s)"
  assume IH: "\<And>E route_url ra rt x s y. f E route_url ra rt x s = Some y \<Longrightarrow>
      history (snd y) = history s \<and> config (snd y) = config s \<and>
      (\<exists>tr. trace (snd y) = trace s @ WxNavigateTo (appendUrlParam E route_url x) # tr)"
  assume body: "(let openRes = ?res; s1 = ?s1
      in if succeeded openRes then Some (Inr (), delay NAV_BUSY_REMAIN s1)
         else if str_includes (errMsg openRes) ''limit exceed'' then
           (if MAX_LEVEL (config s1) \<le> int (length (getCurrentPages E (world s1))) then
              Some (secretReplace E route_url x s1)
            else if ra < rt then f E route_url (ra * 2) rt x (delay ra s1)
            else Some (Inl (WxFail openRes), s1))
         else Some (Inl (WxFail openRes), s1)) = Some y"
  have s1: "history ?s1 = history s" "config ?s1 = config s" "trace ?s1 = trace s @ [WxNavigateTo ?u]"
    by (simp_all add: wxResolve_navigateTo_def)
  consider (ok) "succeeded ?res"
    | (other) "\<not> succeeded ?res" "\<not> str_includes (errMsg ?res) ''limit exceed''"
    | (full) "\<not> succeeded ?res" "str_includes (errMsg ?res) ''limit exceed''"
        "MAX_LEVEL (config ?s1) \<le> int (length (getCurrentPages E (world ?s1)))"
    | (retry) "\<not> succeeded ?res" "str_includes (errMsg ?res) ''limit exceed''"
        "\<not> MAX_LEVEL (config ?s1) \<le> int (length (getCurrentPages E (world ?s1)))" "ra < rt"
    | (giveup) "\<not> succeeded ?res" "str_includes (errMsg ?res) ''limit exceed''"
        "\<not> MAX_LEVEL (config ?s1) \<le> int (length (getCurrentPages E (world ?s1)))" "\<not> ra < rt"
    by blast
  then show "history (snd y) = history s \<and> config (snd y) = config s \<and>
      (\<exists>tr. trace (snd y) = trace s @ WxNavigateTo ?u # tr)"
  proof cases
    case ok
    with body s1 show ?thesis by (auto simp: Let_def delay_def)
  next
    case other
    with body s1 show ?thesis by (auto simp: Let_def)
  next
    case full
    from secretReplace_trace [of E route_url x ?s1] obtain tr where
      "trace (snd (secretReplace E route_url x ?s1)) = trace ?s1 @ WxRedirectTo ?u # tr" by blast
    with full body s1 show ?thesis by (auto simp: Let_def secretReplace_frame)
  next
    case retry
    with body have "f E route_url (ra * 2) rt x (delay ra ?s1) = Some y" by (simp add: Let_def)
    from IH [OF this] s1 show ?thesis by (auto simp: delay_def)
  next
    case giveup
    with body s1 show ?thesis by (auto simp: Let_def)
  qed
qed

lemma secretOpen_default:
  "\<exists>r s'. secretOpen E route_url NAV_BUSY_REMAIN 2000 x s = Some (r, s') \<and>
     history s' = history s \<and> config s' = config s \<and>
     (\<exists>tr. trace s' = trace s @ WxNavigateTo (appendUrlParam E route_url x) # tr)"
proof -
  obtain y where y: "secretOpen E route_url NAV_BUSY_REMAIN 2000 x s = Some y"
    using secretOpen_returns [of NAV_BUSY_REMAIN E route_url 2000 x s] by (auto simp: NAV_BUSY_REMAIN_def)
  from secretOpen_frame [OF y] y show ?thesis by (cases y) auto
qed


subsection \<open>Open and replace\<close>

lemma History_length_savePage [simp]:
  "History_length (History_savePage i p h) = History_length h"
  by (simp add: History_savePage_def History_length_def routes_def)

lemma History_length_open [simp]:
  "History_length (History_open r ps h) = History_length h + 1"
  by (simp add: History_open_def History_length_def routes_def Let_def History_savePage_def)

lemma History_length_replace [simp]:
  "History_length (History_replace r h) = History_length h"
  by (cases "above h = []") (simp_all add: History_replace_def History_length_def routes_def)

lemma last_routes_open [simp]:
  "last (routes (History_open r ps h)) = r"
  by (simp add: History_open_def routes_def Let_def)

lemma last_routes_replace [simp]:
  "last (routes (History_replace r h)) = r"
  by (simp add: History_replace_def routes_def)

lemma last_routes_savePage:
  "i < History_length h - 1 \<Longrightarrow> last (routes (History_savePage i p h)) = last (routes h)"
  by (auto simp: History_savePage_def History_length_def routes_def last_list_update)

lemma History_length_pos [simp]: "0 < History_length h"
  by (simp add: History_length_def routes_def)

lemma history_kept_by_bodies:
  fixes E :: "'w platform" and s :: "'w Navigator"
  shows "getCurrentPages E (world s) \<noteq> [] \<longrightarrow>
   (\<exists>r s' tr. navigateTo_body E route_url s = Some (r, s') \<and>
      trace s' = trace s @
        HistoryOpen \<lparr>url = toAbsolutePath E route_url
                         (js_or (route (last (getCurrentPages E (world s))))
                                (route_legacy (last (getCurrentPages E (world s))))),
                     tainted = False, savedPage = None\<rparr> # tr \<and>
      History_length (history s') = History_length (history s) + 1 \<and>
      url (last (routes (history s'))) =
        toAbsolutePath E route_url
          (js_or (route (last (getCurrentPages E (world s))))
                 (route_legacy (last (getCurrentPages E (world s)))))) \<and>
   (\<exists>r s' tr. redirectTo E route_url s = (r, s') \<and>
      trace s' = trace s @
        HistoryReplace \<lparr>url = toAbsolutePath E route_url
                         (js_or (route (last (getCurrentPages E (world s))))
                                (route_legacy (last (getCurrentPages E (world s))))),
                     tainted = False, savedPage = None\<rparr> # tr \<and>
      History_length (history s') = History_length (history s) \<and>
      url (last (routes (history s'))) =
        toAbsolutePath E route_url
          (js_or (route (last (getCurrentPages E (world s))))
                 (route_legacy (last (getCurrentPages E (world s))))))"
proof (intro impI conjI)
  let ?pages = "getCurrentPages E (world s)"
  let ?abs = "toAbsolutePath E route_url (js_or (route (last ?pages)) (route_legacy (last ?pages)))"
  let ?new = "\<lparr>url = ?abs, tainted = False, savedPage = None\<rparr>"
  let ?s1 = "s\<lparr>history := History_open ?new ?pages (history s), trace := trace s @ [HistoryOpen ?new]\<rparr>"
  let ?idx = "History_length (history ?s1) - 2"
  let ?s2 = "?s1\<lparr>history := History_savePage ?idx (last ?pages) (history ?s1),
                 trace := trace ?s1 @ [HistorySavePage ?idx (last ?pages)]\<rparr>"
  assume ne: "?pages \<noteq> []"
  have s1: "History_length (history ?s1) = History_length (history s) + 1"
      "last (routes (history ?s1)) = ?new" by simp_all
  have s2: "History_length (history ?s2) = History_length (history s) + 1"
      "last (routes (history ?s2)) = ?new"
      "trace ?s2 = trace s @ HistoryOpen ?new # [HistorySavePage ?idx (last ?pages)]"
    by (simp_all add: last_routes_savePage)
  show "\<exists>r s' tr. navigateTo_body E route_url s = Some (r, s') \<and>
      trace s' = trace s @ HistoryOpen ?new # tr \<and>
      History_length (history s') = History_length (history s) + 1 \<and>
      url (last (routes (history s'))) = ?abs"
  proof -
    consider (curtain) "enableCurtain (config s) \<and> int (length ?pages) = MAX_LEVEL (config s) - 1"
      | (room) "\<not> (enableCurtain (config s) \<and> int (length ?pages) = MAX_LEVEL (config s) - 1)"
          "int (length ?pages) < MAX_LEVEL (config s)"
      | (full) "\<not> (enableCurtain (config s) \<and> int (length ?pages) = MAX_LEVEL (config s) - 1)"
          "\<not> int (length ?pages) < MAX_LEVEL (config s)"
      by blast
    then show ?thesis
    proof cases
      case curtain
      obtain r2 t2 where rep: "secretReplace E (curtainPage (config s)) None ?s2 = (r2, t2)"
        by (cases "secretReplace E (curtainPage (config s)) None ?s2")
      from secretReplace_trace [of E "curtainPage (config s)" None ?s2] secretReplace_frame [of E "curtainPage (config s)" None ?s2] rep s2
      obtain tr2 where t2: "history t2 = history ?s2" "trace t2 = trace s @ HistoryOpen ?new # tr2"
        by auto
      show ?thesis
      proof (cases r2)
        case (Inl e)
        with curtain ne rep have "navigateTo_body E route_url s = Some (Inl e, t2)"
          by (simp add: navigateTo_body_def Let_def)
        with t2 s2 show ?thesis by simp
      next
        case (Inr u)
        from secretOpen_default [of E route_url None t2] obtain r3 t3 tr3 where
          op: "secretOpen E route_url NAV_BUSY_REMAIN 2000 None t2 = Some (r3, t3)"
          and t3: "history t3 = history t2" "trace t3 = trace t2 @ WxNavigateTo (appendUrlParam E route_url None) # tr3"
          by blast
        from Inr curtain ne rep op have "navigateTo_body E route_url s =
            Some (await (r3, t3) (\<lambda>s. (Inr ok_result, s)))"
          by (simp add: navigateTo_body_def Let_def)
        then have "\<exists>r. navigateTo_body E route_url s = Some (r, t3)"
          by (cases r3) (simp_all add: await_def)
        with t3 t2 s2 show ?thesis by auto
      qed
    next
      case room
      from secretOpen_default [of E route_url None ?s1] obtain r3 t3 tr3 where
        op: "secretOpen E route_url NAV_BUSY_REMAIN 2000 None ?s1 = Some (r3, t3)"
        and t3: "history t3 = history ?s1" "trace t3 = trace ?s1 @ WxNavigateTo (appendUrlParam E route_url None) # tr3"
        by blast
      from room(1) have c: "(enableCurtain (config s) \<and> int (length ?pages) = MAX_LEVEL (config s) - 1) = False"
        by simp
      from room(2) ne op have "navigateTo_body E route_url s = Some (await (r3, t3) (\<lambda>s. (Inr ok_result, s)))"
        by (simp add: navigateTo_body_def Let_def c)
      then have "\<exists>r. navigateTo_body E route_url s = Some (r, t3)"
        by (cases r3) (simp_all add: await_def)
      with t3 s1 show ?thesis by auto
    next
      case full
      obtain r2 t2 where rep: "secretReplace E route_url None ?s2 = (r2, t2)"
        by (cases "secretReplace E route_url None ?s2")
      from secretReplace_trace [of E route_url None ?s2] secretReplace_frame [of E route_url None ?s2] rep s2
      obtain tr2 where t2: "history t2 = history ?s2" "trace t2 = trace s @ HistoryOpen ?new # tr2"
        by auto
      from full(1) have c: "(enableCurtain (config s) \<and> int (length ?pages) = MAX_LEVEL (config s) - 1) = False"
        by simp
      from full(2) ne rep have "navigateTo_body E route_url s = Some (await (r2, t2) (\<lambda>s. (Inr ok_result, s)))"
        by (simp add: navigateTo_body_def Let_def c)
      then have "\<exists>r. navigateTo_body E route_url s = Some (r, t2)"
        by (cases r2) (simp_all add: await_def)
      with t2 s2 show ?thesis by auto
    qed
  qed
  let ?r1 = "s\<lparr>history := History_replace ?new (history s), trace := trace s @ [HistoryReplace ?new]\<rparr>"
  obtain r2 t2 where rep: "secretReplace E route_url None ?r1 = (r2, t2)"
    by (cases "secretReplace E route_url None ?r1")
  from secretReplace_trace [of E route_url None ?r1] secretReplace_frame [of E route_url None ?r1] rep
  obtain tr2 where t2: "history t2 = history ?r1" "trace t2 = trace s @ HistoryReplace ?new # tr2"
    by auto
  from ne rep have "redirectTo E route_url s = await (r2, t2) (\<lambda>s. (Inr ok_result, s))"
    by (simp add: redirectTo_def Let_def)
  then have "\<exists>r. redirectTo E route_url s = (r, t2)"
    by (cases r2) (simp_all add: await_def)
  with t2 show "\<exists>r s' tr. redirectTo E route_url s = (r, s') \<and>
      trace s' = trace s @ HistoryReplace ?new # tr \<and>
      History_length (history s') = History_length (history s) \<and>
      url (last (routes (history s'))) = ?abs"
    by auto
qed


text \<open>
  Claim C10. With a page on the physical stack, a call of \<^verbatim>\<open>navigateTo\<close> that finds
  the lock \<^verbatim>\<open>navigate\<close> free, and any call of \<^verbatim>\<open>redirectTo\<close>, returns, and
  whatever it returns (a result or a thrown failure of the physical operation), the first
  thing it did was the change of the logical history, and the history it leaves still
  holds it: one entry more for an open, the same number for a replace, and the new route
  on top.
\<close>

theorem logical_history_kept_on_failure:
  fixes E :: "'w platform" and s :: "'w Navigator"
  shows "getCurrentPages E (world s) \<noteq> [] \<longrightarrow>
   (\<not> running (navigateLock s) \<longrightarrow>
    (\<exists>r s' tr. navigateTo E route_url c s = Some (r, s') \<and>
      trace s' = trace s @
        HistoryOpen \<lparr>url = toAbsolutePath E route_url
                         (js_or (route (last (getCurrentPages E (world s))))
                                (route_legacy (last (getCurrentPages E (world s))))),
                     tainted = False, savedPage = None\<rparr> # tr \<and>
      History_length (history s') = History_length (history s) + 1 \<and>
      url (last (routes (history s'))) =
        toAbsolutePath E route_url
          (js_or (route (last (getCurrentPages E (world s))))
                 (route_legacy (last (getCurrentPages E (world s))))))) \<and>
   (\<exists>r s' tr. redirectTo E route_url s = (r, s') \<and>
      trace s' = trace s @
        HistoryReplace \<lparr>url = toAbsolutePath E route_url
                         (js_or (route (last (getCurrentPages E (world s))))
                                (route_legacy (last (getCurrentPages E (world s))))),
                     tainted = False, savedPage = None\<rparr> # tr \<and>
      History_length (history s') = History_length (history s) \<and>
      url (last (routes (history s'))) =
        toAbsolutePath E route_url
          (js_or (route (last (getCurrentPages E (world s))))
                 (route_legacy (last (getCurrentPages E (world s))))))"
proof (intro impI conjI)
  let ?s1 = "s\<lparr>navigateLock := call async_body navigate_mutex c (navigateLock s)\<rparr>"
  assume ne: "getCurrentPages E (world s) \<noteq> []"
  then have ne1: "getCurrentPages E (world ?s1) \<noteq> []" by simp
  from history_kept_by_bodies [of E s route_url] ne
  show "\<exists>r s' tr. redirectTo E route_url s = (r, s') \<and>
      trace s' = trace s @
        HistoryReplace \<lparr>url = toAbsolutePath E route_url
                         (js_or (route (last (getCurrentPages E (world s))))
                                (route_legacy (last (getCurrentPages E (world s))))),
                     tainted = False, savedPage = None\<rparr> # tr \<and>
      History_length (history s') = History_length (history s) \<and>
      url (last (routes (history s'))) =
        toAbsolutePath E route_url
          (js_or (route (last (getCurrentPages E (world s))))
                 (route_legacy (last (getCurrentPages E (world s)))))"
    by blast
  assume free: "\<not> running (navigateLock s)"
  from history_kept_by_bodies [of E ?s1 route_url] ne1
  obtain r s2 tr where body: "navigateTo_body E route_url ?s1 = Some (r, s2)"
    and props: "trace s2 = trace s @
        HistoryOpen \<lparr>url = toAbsolutePath E route_url
                         (js_or (route (last (getCurrentPages E (world s))))
                                (route_legacy (last (getCurrentPages E (world s))))),
                     tainted = False, savedPage = None\<rparr> # tr"
      "History_length (history s2) = History_length (history s) + 1"
      "url (last (routes (history s2))) =
        toAbsolutePath E route_url
          (js_or (route (last (getCurrentPages E (world s))))
                 (route_legacy (last (getCurrentPages E (world s)))))"
    by auto
  from free body have "navigateTo E route_url c s =
      Some (r, s2\<lparr>navigateLock := settle (settled_as r) c (navigateLock s2)\<rparr>)"
    by (simp add: navigateTo_def Let_def)
  with props show "\<exists>r s' tr. navigateTo E route_url c s = Some (r, s') \<and>
      trace s' = trace s @
        HistoryOpen \<lparr>url = toAbsolutePath E route_url
                         (js_or (route (last (getCurrentPages E (world s))))
                                (route_legacy (last (getCurrentPages E (world s))))),
                     tainted = False, savedPage = None\<rparr> # tr \<and>
      History_length (history s') = History_length (history s) + 1 \<and>
      url (last (routes (history s'))) =
        toAbsolutePath E route_url
          (js_or (route (last (getCurrentPages E (world s))))
                 (route_legacy (last (getCurrentPages E (world s)))))"
    by auto
qed

text \<open>A call made while the lock is held is discarded: nothing but the lock's record changes.\<close>

lemma navigateTo_discarded:
  "running (navigateLock s) \<Longrightarrow>
   navigateTo E route_url c s =
     Some (Inr discarded,
           s\<lparr>navigateLock := (navigateLock s)
               \<lparr>settledCalls := settledCalls (navigateLock s) @ [(c, Fulfilled (Val (Inr discarded)))]\<rparr>\<rparr>)"
  by (simp add: navigateTo_def Let_def call_def navigate_mutex_def)

theorem logical_history_kept_on_failure_witness:
  "getCurrentPages simulator
     (world (configured sim_config (sim_world (sim_pages 3) (Some ''navigateTo:fail limit exceed'')
        (Some ''redirectTo:fail'')))) \<noteq> [] \<and>
   \<not> running (navigateLock (configured sim_config (sim_world (sim_pages 3)
        (Some ''navigateTo:fail limit exceed'') (Some ''redirectTo:fail'')))) \<and>
   (\<exists>e s'. navigateTo simulator ''/b'' 0
       (configured sim_config (sim_world (sim_pages 3) (Some ''navigateTo:fail limit exceed'')
          (Some ''redirectTo:fail''))) = Some (Inl e, s') \<and>
      History_length (history s') = 2 \<and> url (last (routes (history s'))) = ''/b'') \<and>
   (\<exists>e s'. redirectTo simulator ''/b''
       (configured sim_config (sim_world (sim_pages 3) (Some ''navigateTo:fail limit exceed'')
          (Some ''redirectTo:fail''))) = (Inl e, s') \<and>
      History_length (history s') = 1 \<and> url (last (routes (history s'))) = ''/b'')"
proof -
  let ?s0 = "configured sim_config (sim_world (sim_pages 3) (Some ''navigateTo:fail limit exceed'')
        (Some ''redirectTo:fail''))"
  have ne: "getCurrentPages simulator (world ?s0) \<noteq> []"
    by (simp add: sim_defs)
  have len: "History_length (history ?s0) = 1" "toAbsolutePath simulator = (\<lambda>u base. u)"
    by (simp_all add: sim_defs History_length_def routes_def)
  have free: "\<not> running (navigateLock ?s0)"
    by (simp add: sim_defs)
  have a: "\<exists>e s'. navigateTo simulator ''/b'' 0 ?s0 = Some (Inl e, s')"
    by (simp add: navigateTo_def navigateTo_body_def call_def invoke_def async_body_def
      navigate_mutex_def sim_defs Let_def secretOpen.simps wxResolve_navigateTo_def
      delay_def NAV_BUSY_REMAIN_def await_def js_or_def History_open_def History_length_def routes_def)
  have b: "\<exists>e s'. redirectTo simulator ''/b'' ?s0 = (Inl e, s')"
    by (simp add: redirectTo_def sim_defs Let_def secretReplace_def wxPromise_redirectTo_def
      delay_def NAV_BUSY_REMAIN_def await_def js_or_def History_replace_def History_length_def routes_def)
  from logical_history_kept_on_failure [of simulator ?s0 "''/b''" 0] ne free a b len
  show ?thesis by (simp only: simp_thms) auto
qed

lemma navigateTo_body_curtain:
  fixes E :: "'w platform" and s :: "'w Navigator"
  assumes curtain: "enableCurtain (config s)"
    and depth: "int (length (getCurrentPages E (world s))) = MAX_LEVEL (config s) - 1"
    and ne: "getCurrentPages E (world s) \<noteq> []"
    and replace: "wx_redirectTo E (appendUrlParam E (curtainPage (config s)) None) (world s) = (Inr (), w1)"
      "length (getCurrentPages E w1) = length (getCurrentPages E (world s))"
    and opened: "wx_navigateTo E (appendUrlParam E route_url None) w1 = (res, w2)" "succeeded res"
      "length (getCurrentPages E w2) = length (getCurrentPages E w1) + 1"
  shows "\<exists>s'. navigateTo_body E route_url s = Some (Inr ok_result, s') \<and>
     trace s' = trace s @
       [HistoryOpen \<lparr>url = toAbsolutePath E route_url
                        (js_or (route (last (getCurrentPages E (world s))))
                               (route_legacy (last (getCurrentPages E (world s))))),
                    tainted = False, savedPage = None\<rparr>,
        HistorySavePage (History_length (history s) - 1) (last (getCurrentPages E (world s))),
        WxRedirectTo (appendUrlParam E (curtainPage (config s)) None),
        Delay 300,
        WxNavigateTo (appendUrlParam E route_url None),
        Delay 300] \<and>
     world s' = w2 \<and>
     int (length (getCurrentPages E (world s'))) = MAX_LEVEL (config s') \<and>
     History_length (history s') = History_length (history s) + 1 \<and>
     activeUnload s' \<and> navigateLock s' = navigateLock s \<and>
     history s' =
       History_savePage (History_length (history s) - 1) (last (getCurrentPages E (world s)))
         (History_open \<lparr>url = toAbsolutePath E route_url
                          (js_or (route (last (getCurrentPages E (world s))))
                                 (route_legacy (last (getCurrentPages E (world s))))),
                        tainted = False, savedPage = None\<rparr>
            (getCurrentPages E (world s)) (history s))"
proof -
  let ?pages = "getCurrentPages E (world s)"
  let ?new = "\<lparr>url = toAbsolutePath E route_url (js_or (route (last ?pages)) (route_legacy (last ?pages))),
               tainted = False, savedPage = None\<rparr>"
  let ?s1 = "s\<lparr>history := History_open ?new ?pages (history s), trace := trace s @ [HistoryOpen ?new]\<rparr>"
  let ?s2 = "?s1\<lparr>history := History_savePage (History_length (history ?s1) - 2) (last ?pages) (history ?s1),
                 trace := trace ?s1 @ [HistorySavePage (History_length (history ?s1) - 2) (last ?pages)]\<rparr>"
  let ?s3 = "delay NAV_BUSY_REMAIN (?s2\<lparr>activeUnload := True,
                 trace := trace ?s2 @ [WxRedirectTo (appendUrlParam E (curtainPage (config s)) None)],
                 world := w1\<rparr>)"
  let ?s4 = "delay NAV_BUSY_REMAIN (?s3\<lparr>trace := trace ?s3 @ [WxNavigateTo (appendUrlParam E route_url None)],
                 world := w2\<rparr>)"
  have rep: "secretReplace E (curtainPage (config s)) None ?s2 = (Inr (), ?s3)"
    using replace(1) by (simp add: secretReplace_def wxPromise_redirectTo_def await_def)
  have op: "secretOpen E route_url NAV_BUSY_REMAIN 2000 None ?s3 = Some (Inr (), ?s4)"
    using opened(1,2) by (subst secretOpen_succeeded) (simp_all add: wxResolve_navigateTo_def delay_def)
  have "navigateTo_body E route_url s = Some (Inr ok_result, ?s4)"
    using curtain depth ne rep op by (simp add: navigateTo_body_def Let_def await_def)
  moreover have "int (length (getCurrentPages E (world ?s4))) = MAX_LEVEL (config ?s4)"
    using depth replace(2) opened(3) by (simp add: delay_def)
  ultimately show ?thesis
    by (simp add: delay_def NAV_BUSY_REMAIN_def)
qed


text \<open>
  Claim C5. Curtain mode is on, the lock \<^verbatim>\<open>navigate\<close> is free and the physical stack
  is one page below \<^verbatim>\<open>MAX_LEVEL\<close>; the platform carries out the replace (same depth)
  and the open (one page more). Then \<^verbatim>\<open>navigateTo\<close> succeeds, and what it did, in
  order, is: the new entry of the logical history, the snapshot of the outgoing page at
  the entry below it, the physical replace by the curtain page, the physical open of the
  target. The platform is left as the open left it, the physical stack ends at
  \<^verbatim>\<open>MAX_LEVEL\<close> pages, the logical history is the old one with the new entry and
  the snapshot, one entry longer, and the release of the lock has run on the result.
\<close>

theorem navigateTo_curtain:
  fixes E :: "'w platform" and s :: "'w Navigator"
  assumes free: "\<not> running (navigateLock s)"
    and curtain: "enableCurtain (config s)"
    and depth: "int (length (getCurrentPages E (world s))) = MAX_LEVEL (config s) - 1"
    and ne: "getCurrentPages E (world s) \<noteq> []"
    and replace: "wx_redirectTo E (appendUrlParam E (curtainPage (config s)) None) (world s) = (Inr (), w1)"
      "length (getCurrentPages E w1) = length (getCurrentPages E (world s))"
    and opened: "wx_navigateTo E (appendUrlParam E route_url None) w1 = (res, w2)" "succeeded res"
      "length (getCurrentPages E w2) = length (getCurrentPages E w1) + 1"
  shows "\<exists>s'. navigateTo E route_url c s = Some (Inr ok_result, s') \<and>
     trace s' = trace s @
       [HistoryOpen \<lparr>url = toAbsolutePath E route_url
                        (js_or (route (last (getCurrentPages E (world s))))
                               (route_legacy (last (getCurrentPages E (world s))))),
                    tainted = False, savedPage = None\<rparr>,
        HistorySavePage (History_length (history s) - 1) (last (getCurrentPages E (world s))),
        WxRedirectTo (appendUrlParam E (curtainPage (config s)) None),
        Delay 300,
        WxNavigateTo (appendUrlParam E route_url None),
        Delay 300] \<and>
     world s' = w2 \<and>
     int (length (getCurrentPages E (world s'))) = MAX_LEVEL (config s') \<and>
     History_length (history s') = History_length (history s) + 1 \<and>
     history s' =
       History_savePage (History_length (history s) - 1) (last (getCurrentPages E (world s)))
         (History_open \<lparr>url = toAbsolutePath E route_url
                          (js_or (route (last (getCurrentPages E (world s))))
                                 (route_legacy (last (getCurrentPages E (world s))))),
                        tainted = False, savedPage = None\<rparr>
            (getCurrentPages E (world s)) (history s)) \<and>
     activeUnload s' \<and>
     navigateLock s' =
       handleRunFinish (Fulfilled (Val (Inr ok_result)))
         ((navigateLock s)
            \<lparr>running := True,
             invoked := invoked (navigateLock s) @ [c],
             pending := remove1 c (pending (navigateLock s) @ [c]),
             settledCalls := settledCalls (navigateLock s) @ [(c, Fulfilled (Val (Inr ok_result)))]\<rparr>)"
proof -
  let ?s1 = "s\<lparr>navigateLock := call async_body navigate_mutex c (navigateLock s)\<rparr>"
  have "\<exists>s'. navigateTo_body E route_url ?s1 = Some (Inr ok_result, s') \<and>
     trace s' = trace ?s1 @
       [HistoryOpen \<lparr>url = toAbsolutePath E route_url
                        (js_or (route (last (getCurrentPages E (world ?s1))))
                               (route_legacy (last (getCurrentPages E (world ?s1))))),
                    tainted = False, savedPage = None\<rparr>,
        HistorySavePage (History_length (history ?s1) - 1) (last (getCurrentPages E (world ?s1))),
        WxRedirectTo (appendUrlParam E (curtainPage (config ?s1)) None),
        Delay 300,
        WxNavigateTo (appendUrlParam E route_url None),
        Delay 300] \<and>
     world s' = w2 \<and>
     int (length (getCurrentPages E (world s'))) = MAX_LEVEL (config s') \<and>
     History_length (history s') = History_length (history ?s1) + 1 \<and>
     activeUnload s' \<and> navigateLock s' = navigateLock ?s1 \<and>
     history s' =
       History_savePage (History_length (history ?s1) - 1) (last (getCurrentPages E (world ?s1)))
         (History_open \<lparr>url = toAbsolutePath E route_url
                          (js_or (route (last (getCurrentPages E (world ?s1))))
                                 (route_legacy (last (getCurrentPages E (world ?s1))))),
                        tainted = False, savedPage = None\<rparr>
            (getCurrentPages E (world ?s1)) (history ?s1))"
    using curtain depth ne replace opened
    by (intro navigateTo_body_curtain [where ?w1.0 = w1 and res = res]) simp_all
  then obtain s2 where body: "navigateTo_body E route_url ?s1 = Some (Inr ok_result, s2)"
    and props: "trace s2 = trace s @
       [HistoryOpen \<lparr>url = toAbsolutePath E route_url
                        (js_or (route (last (getCurrentPages E (world s))))
                               (route_legacy (last (getCurrentPages E (world s))))),
                    tainted = False, savedPage = None\<rparr>,
        HistorySavePage (History_length (history s) - 1) (last (getCurrentPages E (world s))),
        WxRedirectTo (appendUrlParam E (curtainPage (config s)) None),
        Delay 300,
        WxNavigateTo (appendUrlParam E route_url None),
        Delay 300]"
      "world s2 = w2" "int (length (getCurrentPages E (world s2))) = MAX_LEVEL (config s2)"
      "History_length (history s2) = History_length (history s) + 1" "activeUnload s2"
      "navigateLock s2 = call async_body navigate_mutex c (navigateLock s)"
      "history s2 =
       History_savePage (History_length (history s) - 1) (last (getCurrentPages E (world s)))
         (History_open \<lparr>url = toAbsolutePath E route_url
                          (js_or (route (last (getCurrentPages E (world s))))
                                 (route_legacy (last (getCurrentPages E (world s))))),
                        tainted = False, savedPage = None\<rparr>
            (getCurrentPages E (world s)) (history s))"
    by auto
  from free body have "navigateTo E route_url c s =
      Some (Inr ok_result, s2\<lparr>navigateLock := settle (settled_as (Inr ok_result)) c (navigateLock s2)\<rparr>)"
    by (simp add: navigateTo_def Let_def)
  with props free show ?thesis
    by (simp add: call_def invoke_def async_body_def settle_def settled_as_def)
qed

lemma eight_opens:
  "\<exists>s8. opens simulator 0 [''/p1'', ''/p2'', ''/p3'', ''/p4'', ''/p5'', ''/p6'', ''/p7'', ''/p8'']
          (configured sim_config (sim_world (sim_pages 1) None None)) = Some s8 \<and>
        config s8 = sim_config \<and>
        world s8 = sim_world (sim_pages 9) None None \<and>
        History_length (history s8) = 9 \<and>
        \<not> running (navigateLock s8) \<and> listeners (navigateLock s8) = []"
  by (simp add: navigateTo_def navigateTo_body_def call_def invoke_def settle_def async_body_def
      settled_as_def navigate_mutex_def handleRunFinish_Nil sim_defs Let_def secretOpen.simps
      wxResolve_navigateTo_def delay_def NAV_BUSY_REMAIN_def await_def js_or_def History_open_def
      History_savePage_def History_length_def routes_def ok_result_def)

theorem navigateTo_curtain_witness:
  "\<exists>s8 s'. opens simulator 0 [''/p1'', ''/p2'', ''/p3'', ''/p4'', ''/p5'', ''/p6'', ''/p7'', ''/p8'']
          (configured sim_config (sim_world (sim_pages 1) None None)) = Some s8 \<and>
     \<not> running (navigateLock s8) \<and>
     enableCurtain (config s8) \<and>
     int (length (getCurrentPages simulator (world s8))) = MAX_LEVEL (config s8) - 1 \<and>
     navigateTo simulator ''/p9'' 8 s8 = Some (Inr ok_result, s') \<and>
     map route (getCurrentPages simulator (world s')) =
       [Some ''/p0'', Some ''/p1'', Some ''/p2'', Some ''/p3'', Some ''/p4'', Some ''/p5'',
        Some ''/p6'', Some ''/p7'', Some ''/pages/curtain/curtain'', Some ''/p9''] \<and>
     History_length (history s') = 10 \<and>
     \<not> running (navigateLock s')"
proof -
  from eight_opens obtain s8 where
    s8: "opens simulator 0 [''/p1'', ''/p2'', ''/p3'', ''/p4'', ''/p5'', ''/p6'', ''/p7'', ''/p8'']
          (configured sim_config (sim_world (sim_pages 1) None None)) = Some s8"
    and cfg: "config s8 = sim_config"
    and w: "world s8 = sim_world (sim_pages 9) None None"
    and len: "History_length (history s8) = 9"
    and free: "\<not> running (navigateLock s8)"
    and quiet: "listeners (navigateLock s8) = []"
    by blast
  let ?w1 = "sim_world (butlast (sim_pages 9) @ [sim_page ''/pages/curtain/curtain'']) None None"
  let ?w2 = "sim_world (butlast (sim_pages 9) @ [sim_page ''/pages/curtain/curtain'', sim_page ''/p9'']) None None"
  have r1: "wx_redirectTo simulator (appendUrlParam simulator (curtainPage (config s8)) None) (world s8) =
      (Inr (), ?w1)" "length (getCurrentPages simulator ?w1) = length (getCurrentPages simulator (world s8))"
    by (simp_all add: cfg w sim_defs)
  have r2: "wx_navigateTo simulator (appendUrlParam simulator ''/p9'' None) ?w1 =
      (\<lparr>succeeded = True, errMsg = ''navigateTo:ok''\<rparr>, ?w2)"
    "succeeded \<lparr>succeeded = True, errMsg = ''navigateTo:ok''\<rparr>"
    "length (getCurrentPages simulator ?w2) = length (getCurrentPages simulator ?w1) + 1"
    by (simp_all add: sim_defs)
  have pre: "enableCurtain (config s8)"
    "int (length (getCurrentPages simulator (world s8))) = MAX_LEVEL (config s8) - 1"
    "getCurrentPages simulator (world s8) \<noteq> []"
    by (simp_all add: cfg w sim_defs)
  from navigateTo_curtain [OF free pre r1 r2, of 8]
  obtain s' where "navigateTo simulator ''/p9'' 8 s8 = Some (Inr ok_result, s')"
    "world s' = ?w2" "History_length (history s') = History_length (history s8) + 1"
    "navigateLock s' =
       handleRunFinish (Fulfilled (Val (Inr ok_result)))
         ((navigateLock s8)
            \<lparr>running := True,
             invoked := invoked (navigateLock s8) @ [8],
             pending := remove1 8 (pending (navigateLock s8) @ [8]),
             settledCalls := settledCalls (navigateLock s8) @ [(8, Fulfilled (Val (Inr ok_result)))]\<rparr>)"
    by blast
  with s8 cfg w len free quiet show ?thesis
    by (intro exI [of _ s8] exI [of _ s']) (simp add: sim_defs handleRunFinish_Nil)
qed

subsection \<open>Back\<close>

lemma secretBack_trace:
  fixes E :: "'w platform" and s :: "'w Navigator"
  shows "\<exists>tr. trace (snd (secretBack E d s)) = trace s @ WxNavigateBack d # tr \<and>
        (\<forall>k. WxNavigateBack k \<notin> set tr)"
  by (cases "fst (wx_navigateBack E d (world s))")
     (simp_all add: secretBack_def wxPromise_navigateBack_def await_def delay_def)

lemma secretReplace_no_pop:
  fixes E :: "'w platform" and s :: "'w Navigator"
  shows "\<exists>tr. trace (snd (secretReplace E u x s)) = trace s @ tr \<and> (\<forall>k. WxNavigateBack k \<notin> set tr)"
  using secretReplace_trace [of E u x s] by auto

lemma doLostRestore_no_pop:
  "\<exists>tr. trace (snd (doLostRestore r s)) = trace s @ tr \<and> (\<forall>k. WxNavigateBack k \<notin> set tr)"
  by (auto simp: doLostRestore_def Let_def split: option.splits handled.splits)

lemma doTaintedRestore_no_pop:
  fixes E :: "'w platform" and s :: "'w Navigator"
  shows "\<exists>tr. trace (snd (doTaintedRestore E r s)) = trace s @ tr \<and> (\<forall>k. WxNavigateBack k \<notin> set tr)"
proof -
  let ?s1 = "s\<lparr>trace := trace s @ [PageRestoreHandler r ''tainted'']\<rparr>"
  from secretReplace_no_pop [of E "url r" forcedRefresh s] obtain tr0 where
    t0: "trace (snd (secretReplace E (url r) forcedRefresh s)) = trace s @ tr0" "\<forall>k. WxNavigateBack k \<notin> set tr0"
    by blast
  from secretReplace_no_pop [of E "url r" forcedRefresh ?s1] obtain tr1 where
    t1: "trace (snd (secretReplace E (url r) forcedRefresh ?s1)) = trace ?s1 @ tr1" "\<forall>k. WxNavigateBack k \<notin> set tr1"
    by blast
  show ?thesis
  proof (cases "pageRestoreHandler (config s)")
    case None
    with t0 show ?thesis by (simp add: doTaintedRestore_def)
  next
    case (Some h)
    with t1 show ?thesis
      by (cases "h r ''tainted''") (auto simp: doTaintedRestore_def Let_def)
  qed
qed

lemma await_trace:
  assumes "\<exists>tr. trace (snd p) = t0 @ tr \<and> Q tr"
    and "\<And>s. \<exists>tr. trace (snd (k s)) = trace s @ tr \<and> Q tr"
    and "\<And>a b. Q a \<Longrightarrow> Q b \<Longrightarrow> Q (a @ b)"
  shows "\<exists>tr. trace (snd (await p k)) = t0 @ tr \<and> Q tr"
proof (cases p)
  case (Pair r s)
  show ?thesis
  proof (cases r)
    case (Inl e)
    with Pair assms(1) show ?thesis by (simp add: await_def)
  next
    case (Inr u)
    from assms(1) Pair obtain tr1 where 1: "trace s = t0 @ tr1" "Q tr1" by auto
    from assms(2) [of s] obtain tr2 where 2: "trace (snd (k s)) = trace s @ tr2" "Q tr2" by blast
    from 1 2 assms(3) have "trace (snd (k s)) = t0 @ (tr1 @ tr2) \<and> Q (tr1 @ tr2)" by simp
    with Pair Inr show ?thesis by (auto simp: await_def)
  qed
qed

lemma doBack_deeper_log:
  fixes E :: "'w platform" and s :: "'w Navigator"
  assumes deeper: "History_length (snd (History_back delta (history s)))
      < int (length (getCurrentPages E (world s))) - (if sysBack then 1 else 0)"
  shows "\<exists>r s' tr. doBack E delta sysBack s = Some (r, s') \<and>
     trace s' = trace s @
       [HistoryBack delta,
        WxNavigateBack (int (length (getCurrentPages E (world s))) - (if sysBack then 1 else 0)
                        - History_length (snd (History_back delta (history s))))] @ tr \<and>
     (\<forall>k. WxNavigateBack k \<notin> set tr)"
proof -
  let ?target = "fst (History_back delta (history s))"
  let ?L = "History_length (snd (History_back delta (history s)))"
  let ?P = "int (length (getCurrentPages E (world s))) - (if sysBack then 1 else 0)"
  let ?s1 = "s\<lparr>history := snd (History_back delta (history s)), trace := trace s @ [HistoryBack delta]\<rparr>"
  let ?Q = "\<lambda>tr. \<forall>k. WxNavigateBack k \<notin> set tr"
  let ?rest = "\<lambda>s2. if enableCurtain (config s) \<and> ?L = MAX_LEVEL (config s) - 1 then
                        await (secretReplace E (url ?target) forcedRefresh s2) (doLostRestore ?target)
                      else if enableTaintedRestore (config s) \<and> tainted ?target
                        then doTaintedRestore E ?target s2
                      else (Inr (), s2)"
  have eq: "doBack E delta sysBack s = Some (await (secretBack E (?P - ?L) ?s1) ?rest)"
    using deeper by (simp add: doBack_def Let_def cong: if_cong)
  have rest: "\<exists>tr. trace (snd (?rest t)) = trace t @ tr \<and> ?Q tr" for t :: "'w Navigator"
  proof -
    have "\<exists>tr. trace (snd (await (secretReplace E (url ?target) forcedRefresh t) (doLostRestore ?target)))
        = trace t @ tr \<and> ?Q tr"
      by (rule await_trace [OF secretReplace_no_pop doLostRestore_no_pop]) auto
    moreover have "\<exists>tr. trace (snd (doTaintedRestore E ?target t)) = trace t @ tr \<and> ?Q tr"
      by (rule doTaintedRestore_no_pop)
    ultimately show ?thesis by simp
  qed
  obtain r2 t2 where sb: "secretBack E (?P - ?L) ?s1 = (r2, t2)"
    by (cases "secretBack E (?P - ?L) ?s1")
  from secretBack_trace [of E "?P - ?L" ?s1] sb obtain tr2 where
    t2: "trace t2 = trace s @ [HistoryBack delta, WxNavigateBack (?P - ?L)] @ tr2" "?Q tr2"
    by auto
  show ?thesis
  proof (cases r2)
    case (Inl e)
    with eq sb have "doBack E delta sysBack s = Some (Inl e, t2)" by (simp add: await_def)
    with t2 show ?thesis by blast
  next
    case (Inr u)
    from rest [of t2] obtain tr3 where t3: "trace (snd (?rest t2)) = trace t2 @ tr3" "?Q tr3" by blast
    from Inr eq sb have "doBack E delta sysBack s = Some (?rest t2)" by (simp add: await_def)
    then have "doBack E delta sysBack s = Some (fst (?rest t2), snd (?rest t2))" by simp
    moreover from t2 t3 have "trace (snd (?rest t2)) =
        trace s @ [HistoryBack delta, WxNavigateBack (?P - ?L)] @ (tr2 @ tr3) \<and> ?Q (tr2 @ tr3)"
      by simp
    ultimately show ?thesis by blast
  qed
qed


text \<open>
  Claim C7. The logical depth after the pop is below the physical depth, where the
  physical depth is the length of the observed stack, less one exactly when the back is a
  system back. Then \<^verbatim>\<open>_doBack\<close> first sets the flag of active unloading and makes
  one call of \<^verbatim>\<open>wx.navigateBack\<close> over exactly the difference of the two depths, on
  the platform as it was. When the platform rejects the call, that failure is the result
  and nothing else is done; when it resolves, the settle delay follows (three times as
  long on iOS) and only then the replace of a curtain page or a restore. Whatever follows
  holds no second physical back.
\<close>

theorem doBack_pops_excess_layers_first:
  fixes E :: "'w platform" and s :: "'w Navigator"
  assumes deeper: "History_length (snd (History_back delta (history s)))
      < int (length (getCurrentPages E (world s))) - (if sysBack then 1 else 0)"
  shows "let target = fst (History_back delta (history s));
             L = History_length (snd (History_back delta (history s)));
             P = int (length (getCurrentPages E (world s))) - (if sysBack then 1 else 0);
             popped = s\<lparr>history := snd (History_back delta (history s)),
                        activeUnload := True,
                        trace := trace s @ [HistoryBack delta, WxNavigateBack (P - L)],
                        world := snd (wx_navigateBack E (P - L) (world s))\<rparr>;
             rest = (\<lambda>s2. if enableCurtain (config s) \<and> L = MAX_LEVEL (config s) - 1 then
                            await (secretReplace E (url target) forcedRefresh s2) (doLostRestore target)
                          else if enableTaintedRestore (config s) \<and> tainted target then
                            doTaintedRestore E target s2
                          else (Inr (), s2))
         in doBack E delta sysBack s =
              Some (case fst (wx_navigateBack E (P - L) (world s)) of
                      Inl failure \<Rightarrow> (Inl (WxFail failure), popped)
                    | Inr ok \<Rightarrow>
                        rest (popped\<lparr>trace := trace popped @
                                       [Delay (if os E = ''ios'' then 900 else 300)]\<rparr>)) \<and>
            (\<exists>r s' tr. doBack E delta sysBack s = Some (r, s') \<and>
               trace s' = trace s @ [HistoryBack delta, WxNavigateBack (P - L)] @ tr \<and>
               (\<forall>k. WxNavigateBack k \<notin> set tr))"
proof -
  let ?target = "fst (History_back delta (history s))"
  let ?L = "History_length (snd (History_back delta (history s)))"
  let ?P = "int (length (getCurrentPages E (world s))) - (if sysBack then 1 else 0)"
  let ?popped = "s\<lparr>history := snd (History_back delta (history s)),
                  activeUnload := True,
                  trace := trace s @ [HistoryBack delta, WxNavigateBack (?P - ?L)],
                  world := snd (wx_navigateBack E (?P - ?L) (world s))\<rparr>"
  let ?rest = "\<lambda>s2. if enableCurtain (config s) \<and> ?L = MAX_LEVEL (config s) - 1 then
                        await (secretReplace E (url ?target) forcedRefresh s2) (doLostRestore ?target)
                      else if enableTaintedRestore (config s) \<and> tainted ?target
                        then doTaintedRestore E ?target s2
                      else (Inr (), s2)"
  have "doBack E delta sysBack s =
      Some (case fst (wx_navigateBack E (?P - ?L) (world s)) of
              Inl failure \<Rightarrow> (Inl (WxFail failure), ?popped)
            | Inr ok \<Rightarrow>
                ?rest (?popped\<lparr>trace := trace ?popped @
                                [Delay (if os E = ''ios'' then 900 else 300)]\<rparr>))"
    using deeper
    by (cases "fst (wx_navigateBack E (?P - ?L) (world s))")
       (simp_all add: doBack_def Let_def secretBack_def wxPromise_navigateBack_def await_def
          delay_def NAV_BUSY_REMAIN_def cong: if_cong)
  with doBack_deeper_log [OF deeper] show ?thesis
    by (simp only: Let_def)
qed

theorem doBack_pops_excess_layers_first_witness:
  "History_length (snd (History_back 2
       (history (sim_navigator [sim_route ''/a'' False, sim_route ''/b'' False, sim_route ''/c'' False] 5 None))))
     < int (length (getCurrentPages simulator
         (world (sim_navigator [sim_route ''/a'' False, sim_route ''/b'' False, sim_route ''/c'' False] 5 None))))
       - (if True then 1 else 0) \<and>
   doBack simulator 2 True
        (sim_navigator [sim_route ''/a'' False, sim_route ''/b'' False, sim_route ''/c'' False] 5 None) =
     Some (Inr (),
       (sim_navigator [sim_route ''/a'' False] 5 None)
         \<lparr>activeUnload := True,
          trace := [HistoryBack 2, WxNavigateBack 2, Delay 900],
          world := sim_world (sim_pages 3) None None\<rparr>)"
proof -
  let ?s0 = "sim_navigator [sim_route ''/a'' False, sim_route ''/b'' False, sim_route ''/c'' False] 5 None"
  have h: "History_length (snd (History_back 2 (history ?s0)))
      < int (length (getCurrentPages simulator (world ?s0))) - (if True then 1 else 0)"
    by (simp add: History_back_def History_length_def routes_def sim_navigator_def sim_defs)
  have v: "int (length (getCurrentPages simulator (world ?s0))) - (if True then 1 else 0)
       - History_length (snd (History_back 2 (history ?s0))) = 2"
    by (simp add: History_back_def History_length_def routes_def sim_navigator_def sim_defs)
  from doBack_pops_excess_layers_first [OF h] h show ?thesis
    unfolding Let_def v
    by (simp add: History_back_def History_length_def routes_def sim_navigator_def sim_route_def
        sim_defs)
qed

text \<open>
  Claim C6. The logical depth after the pop equals the physical depth (less one for a
  system back). \<open>targetCurtain\<close> and \<open>targetTainted\<close> are the two flags the source
  computes: curtain mode is on and the logical depth is \<^verbatim>\<open>MAX_LEVEL - 1\<close>; the tainted
  restore is on and the target route is flagged. For a back made by code, or onto a
  curtain page, the result is that of the physical replace by the target with the forced
  refresh, followed by the lost restore. Otherwise, for a tainted target, it is that of
  the tainted restore. Otherwise nothing is done: the platform, the flag of active
  unloading and the log are as they were, but for the pop of the logical history.
\<close>

theorem doBack_equal_depth:
  fixes E :: "'w platform" and s :: "'w Navigator"
  assumes equal: "History_length (snd (History_back delta (history s)))
      = int (length (getCurrentPages E (world s))) - (if sysBack then 1 else 0)"
  shows "let target = fst (History_back delta (history s));
             s1 = s\<lparr>history := snd (History_back delta (history s)),
                    trace := trace s @ [HistoryBack delta]\<rparr>;
             targetCurtain = (enableCurtain (config s) \<and>
                              History_length (history s1) = MAX_LEVEL (config s) - 1);
             targetTainted = (enableTaintedRestore (config s) \<and> tainted target)
         in (\<not> sysBack \<or> targetCurtain \<longrightarrow>
               doBack E delta sysBack s =
                 Some (await (secretReplace E (url target) forcedRefresh s1) (doLostRestore target))) \<and>
            (sysBack \<and> \<not> targetCurtain \<and> targetTainted \<longrightarrow>
               doBack E delta sysBack s = Some (doTaintedRestore E target s1)) \<and>
            (sysBack \<and> \<not> targetCurtain \<and> \<not> targetTainted \<longrightarrow>
               doBack E delta sysBack s = Some (Inr (), s1) \<and>
               world s1 = world s \<and> activeUnload s1 = activeUnload s \<and>
               trace s1 = trace s @ [HistoryBack delta])"
  using equal by (auto simp: doBack_def Let_def)

theorem doBack_equal_depth_witness:
  "(\<exists>s'. doBack simulator 1 False
        (sim_navigator [sim_route ''/a'' False, sim_route ''/b'' False] 2 (Some restore_fails)) =
          Some (Inr (), s') \<and>
      trace s' = [HistoryBack 1, WxRedirectTo ''/a?_forcedRefresh=true'', Delay 300,
                  PageRestoreHandler (sim_route ''/a'' False) ''unloaded''])
   \<and>
   (\<exists>s'. doBack simulator 1 True
        (sim_navigator [sim_route ''/a'' True, sim_route ''/b'' False] 3 (Some restore_fails)) =
          Some (Inr (), s') \<and>
      trace s' = [HistoryBack 1, PageRestoreHandler (sim_route ''/a'' True) ''tainted'',
                  WxRedirectTo ''/a?_forcedRefresh=true'', Delay 300])
   \<and>
   (\<exists>s'. doBack simulator 1 True
        (sim_navigator [sim_route ''/a'' False, sim_route ''/b'' False] 3 (Some restore_fails)) =
          Some (Inr (), s') \<and>
      trace s' = [HistoryBack 1] \<and>
      world s' = sim_world (sim_pages 3) None None)"
proof (intro conjI)
  let ?code = "sim_navigator [sim_route ''/a'' False, sim_route ''/b'' False] 2 (Some restore_fails)"
  let ?tainted = "sim_navigator [sim_route ''/a'' True, sim_route ''/b'' False] 3 (Some restore_fails)"
  let ?plain = "sim_navigator [sim_route ''/a'' False, sim_route ''/b'' False] 3 (Some restore_fails)"
  have eval: "History_back 1 (history ?code) =
      (sim_route ''/a'' False, \<lparr>root = sim_route [] False, above = [sim_route ''/a'' False], correctLevel = 8\<rparr>)"
    "History_back 1 (history ?tainted) =
      (sim_route ''/a'' True, \<lparr>root = sim_route [] False, above = [sim_route ''/a'' True], correctLevel = 8\<rparr>)"
    "History_back 1 (history ?plain) =
      (sim_route ''/a'' False, \<lparr>root = sim_route [] False, above = [sim_route ''/a'' False], correctLevel = 8\<rparr>)"
    by (simp_all add: History_back_def routes_def sim_navigator_def sim_route_def)
  have h1: "History_length (snd (History_back 1 (history ?code)))
      = int (length (getCurrentPages simulator (world ?code))) - (if False then 1 else 0)"
    by (simp add: eval) (simp add: History_length_def routes_def sim_navigator_def sim_defs)
  have h2: "History_length (snd (History_back 1 (history ?tainted)))
      = int (length (getCurrentPages simulator (world ?tainted))) - (if True then 1 else 0)"
    by (simp add: eval) (simp add: History_length_def routes_def sim_navigator_def sim_defs)
  have h3: "History_length (snd (History_back 1 (history ?plain)))
      = int (length (getCurrentPages simulator (world ?plain))) - (if True then 1 else 0)"
    by (simp add: eval) (simp add: History_length_def routes_def sim_navigator_def sim_defs)
  from doBack_equal_depth [OF h1]
  show "\<exists>s'. doBack simulator 1 False ?code = Some (Inr (), s') \<and>
      trace s' = [HistoryBack 1, WxRedirectTo ''/a?_forcedRefresh=true'', Delay 300,
                  PageRestoreHandler (sim_route ''/a'' False) ''unloaded'']"
    by (simp add: eval Let_def)
       (simp add: sim_navigator_def sim_defs sim_route_def restore_fails_def forcedRefresh_def
          secretReplace_def wxPromise_redirectTo_def doLostRestore_def await_def delay_def
          NAV_BUSY_REMAIN_def)
  from doBack_equal_depth [OF h2]
  show "\<exists>s'. doBack simulator 1 True ?tainted = Some (Inr (), s') \<and>
      trace s' = [HistoryBack 1, PageRestoreHandler (sim_route ''/a'' True) ''tainted'',
                  WxRedirectTo ''/a?_forcedRefresh=true'', Delay 300]"
    by (simp add: eval Let_def)
       (simp add: sim_navigator_def sim_defs sim_route_def restore_fails_def forcedRefresh_def
          secretReplace_def wxPromise_redirectTo_def doTaintedRestore_def reports_success_def
          await_def delay_def NAV_BUSY_REMAIN_def History_length_def routes_def)
  from doBack_equal_depth [OF h3]
  show "\<exists>s'. doBack simulator 1 True ?plain = Some (Inr (), s') \<and>
      trace s' = [HistoryBack 1] \<and> world s' = sim_world (sim_pages 3) None None"
    by (simp add: eval Let_def)
       (simp add: sim_navigator_def sim_defs sim_route_def History_length_def routes_def)
qed

subsection \<open>Restoring page data\<close>

lemma secretReplace_error:
  fixes E :: "'w platform" and s :: "'w Navigator"
  shows "secretReplace E u x s = (Inl e, s') \<Longrightarrow> \<exists>f. e = WxFail f"
  by (cases "fst (wx_redirectTo E (appendUrlParam E u x) (world s))")
     (auto simp: secretReplace_def wxPromise_redirectTo_def await_def)

text \<open>
  The tainted restore with a handler that returns a result, or a promise that fulfils with
  one: the handler is called with the route and the context "tainted", the route is
  reloaded by a physical replace with the forced refresh if and only if the result does
  not report success, and the restore can only fail with the failure of that replace.
\<close>

lemma doTaintedRestore_fallback:
  fixes E :: "'w platform" and s :: "'w Navigator"
  assumes handler: "pageRestoreHandler (config s) = Some h"
    and returns: "h r ''tainted'' = Returns v \<or> h r ''tainted'' = Resolves v"
  shows "doTaintedRestore E r s =
           (if reports_success v then (Inr (), s\<lparr>trace := trace s @ [PageRestoreHandler r ''tainted'']\<rparr>)
            else secretReplace E (url r) forcedRefresh
                   (s\<lparr>trace := trace s @ [PageRestoreHandler r ''tainted'']\<rparr>)) \<and>
         (\<exists>tr. trace (snd (doTaintedRestore E r s)) =
                 trace s @ PageRestoreHandler r ''tainted'' #
                   (if reports_success v then []
                    else WxRedirectTo (appendUrlParam E (url r) forcedRefresh) # tr)) \<and>
         (\<forall>e s'. doTaintedRestore E r s = (Inl e, s') \<longrightarrow> (\<exists>f. e = WxFail f))"
proof -
  let ?s1 = "s\<lparr>trace := trace s @ [PageRestoreHandler r ''tainted'']\<rparr>"
  have eq: "doTaintedRestore E r s =
      (if reports_success v then (Inr (), ?s1) else secretReplace E (url r) forcedRefresh ?s1)"
    using handler returns by (auto simp: doTaintedRestore_def Let_def)
  moreover from secretReplace_trace [of E "url r" forcedRefresh ?s1]
  have "\<exists>tr. trace (snd (doTaintedRestore E r s)) =
                 trace s @ PageRestoreHandler r ''tainted'' #
                   (if reports_success v then []
                    else WxRedirectTo (appendUrlParam E (url r) forcedRefresh) # tr)"
    unfolding eq by auto
  moreover have "\<forall>e s'. doTaintedRestore E r s = (Inl e, s') \<longrightarrow> (\<exists>f. e = WxFail f)"
    unfolding eq by (auto dest: secretReplace_error)
  ultimately show ?thesis by blast
qed

lemma doTaintedRestore_reloads_after_reported_failure:
  "pageRestoreHandler (config (sim_navigator [sim_route ''/a'' True] 2 (Some restore_fails))) = Some restore_fails \<and>
   restore_fails (sim_route ''/a'' True) ''tainted'' = Returns (Restored False) \<and>
   doTaintedRestore simulator (sim_route ''/a'' True) (sim_navigator [sim_route ''/a'' True] 2 (Some restore_fails)) =
     (Inr (),
      (sim_navigator [sim_route ''/a'' True] 2 (Some restore_fails))
        \<lparr>activeUnload := True,
         trace := [PageRestoreHandler (sim_route ''/a'' True) ''tainted'',
                   WxRedirectTo ''/a?_forcedRefresh=true'', Delay 300],
         world := sim_world [sim_page ''/p0'', sim_page ''/a?_forcedRefresh=true''] None None\<rparr>)"
proof -
  let ?s0 = "sim_navigator [sim_route ''/a'' True] 2 (Some restore_fails)"
  have h: "pageRestoreHandler (config ?s0) = Some restore_fails"
    by (simp add: sim_navigator_def sim_defs)
  have r: "restore_fails (sim_route ''/a'' True) ''tainted'' = Returns (Restored False) \<or>
           restore_fails (sim_route ''/a'' True) ''tainted'' = Resolves (Restored False)"
    by (simp add: restore_fails_def)
  from doTaintedRestore_fallback [OF h r, of simulator, THEN conjunct1] h
  show ?thesis
    by (simp add: restore_fails_def reports_success_def)
       (simp add: sim_navigator_def sim_defs sim_route_def forcedRefresh_def secretReplace_def
          wxPromise_redirectTo_def await_def delay_def NAV_BUSY_REMAIN_def)
qed

text \<open>
  Claim C8. The handler returns a promise that rejects. The navigator is four pages deep,
  logically and physically, and \<^verbatim>\<open>navigateBack({delta: 2})\<close> lands on a tainted route:
  after the physical back the handler is called with the context "tainted", the
  \<^verbatim>\<open>await\<close> of its promise throws, no reload follows, and the call of
  \<^verbatim>\<open>navigateBack\<close> rejects with the handler's error. The comment in the source says
  that a failed custom restore falls back to the reload.
\<close>

theorem tainted_restore_rejection_escalates:
  "\<exists>s'. navigateBack simulator 2
      (sim_navigator [sim_route ''/a'' True, sim_route ''/b'' False, sim_route ''/c'' False] 4
         (Some restore_rejects)) = Some (Inl (HandlerFail ''restore failed''), s') \<and>
    trace s' = [HistoryBack 2, WxNavigateBack 2, Delay 900,
                PageRestoreHandler (sim_route ''/a'' True) ''tainted'']"
  by (simp add: navigateBack_def doBack_def Let_def History_back_def History_length_def routes_def
      secretBack_def wxPromise_navigateBack_def doTaintedRestore_def await_def delay_def
      NAV_BUSY_REMAIN_def sim_navigator_def sim_route_def sim_defs restore_rejects_def)


subsection \<open>Page teardown\<close>

lemma finishActiveUnload_discarded:
  "running (finishActiveUnloadLock s) \<Longrightarrow>
   finishActiveUnload c s =
     s\<lparr>finishActiveUnloadLock := (finishActiveUnloadLock s)
         \<lparr>settledCalls := settledCalls (finishActiveUnloadLock s) @ [(c, Fulfilled Undefined)]\<rparr>\<rparr>"
  by (simp add: finishActiveUnload_def call_def noConcurrent_def)

lemma finishActiveUnload_started:
  "\<not> running (finishActiveUnloadLock s) \<Longrightarrow>
   finishActiveUnload c s =
     s\<lparr>finishActiveUnloadLock := (finishActiveUnloadLock s)
         \<lparr>running := True,
          invoked := invoked (finishActiveUnloadLock s) @ [c],
          pending := pending (finishActiveUnloadLock s) @ [c]\<rparr>,
       trace := trace s @ [Delay 300]\<rparr>"
  by (simp add: finishActiveUnload_def call_def invoke_def finishActiveUnload_op_def delay_def)

lemma unloads_discarded:
  fixes E :: "'w platform" and s :: "'w Navigator"
  shows "activeUnload s \<Longrightarrow> running (finishActiveUnloadLock s) \<Longrightarrow>
   unloads E cs s =
     Some (s\<lparr>finishActiveUnloadLock := (finishActiveUnloadLock s)
         \<lparr>settledCalls := settledCalls (finishActiveUnloadLock s) @
            map (\<lambda>c. (c, Fulfilled Undefined)) cs\<rparr>\<rparr>)"
proof (induction cs arbitrary: s)
  case Nil
  then show ?case by simp
next
  case (Cons c cs)
  let ?s' = "finishActiveUnload c s"
  from Cons.prems have 1: "onPageUnload E c s = Some ?s'" by (simp add: onPageUnload_def)
  from Cons.prems have 2: "activeUnload ?s'" "running (finishActiveUnloadLock ?s')"
    by (simp_all add: finishActiveUnload_discarded)
  from Cons.IH [OF 2] 1 Cons.prems show ?case
    by (simp add: finishActiveUnload_discarded)
qed

lemma unloads_burst:
  fixes E :: "'w platform" and s :: "'w Navigator"
  assumes "activeUnload s" "\<not> running (finishActiveUnloadLock s)"
  shows "unloads E (c # cs) s =
        Some (s\<lparr>finishActiveUnloadLock := (finishActiveUnloadLock s)
                 \<lparr>running := True,
                  invoked := invoked (finishActiveUnloadLock s) @ [c],
                  pending := pending (finishActiveUnloadLock s) @ [c],
                  settledCalls := settledCalls (finishActiveUnloadLock s) @
                    map (\<lambda>c. (c, Fulfilled Undefined)) cs\<rparr>,
                trace := trace s @ [Delay 300]\<rparr>)"
proof -
  let ?s' = "finishActiveUnload c s"
  from assms have 1: "onPageUnload E c s = Some ?s'" by (simp add: onPageUnload_def)
  from assms have 2: "activeUnload ?s'" "running (finishActiveUnloadLock ?s')"
    by (simp_all add: finishActiveUnload_started)
  from unloads_discarded [OF 2, of E cs] 1 assms show ?thesis
    by (simp add: finishActiveUnload_started)
qed

text \<open>
  Claim C9. While the flag of active unloading is set, a teardown notification leaves
  the logical history and the platform alone and the flag set; all it can add to the log
  is the wait of 300 ms in front of the clearing of the flag. A burst of notifications
  that finds the lock of \<^verbatim>\<open>_finishActiveUnload\<close> free enters its body once, for the
  first notification, and schedules that one wait; the calls for the other notifications
  are discarded by the mutex. When the wait is over, the body clears the flag and the
  lock is released, with nothing else changed. While the flag is clear, the notification
  is \<^verbatim>\<open>_doBack({delta: 1}, {sysBack: true})\<close>, its result dropped.
\<close>

theorem onPageUnload_routing:
  fixes E :: "'w platform" and s :: "'w Navigator"
  shows
  "(activeUnload s \<longrightarrow>
      (\<exists>s'. onPageUnload E c s = Some s' \<and> history s' = history s \<and> world s' = world s \<and>
            activeUnload s' \<and> (trace s' = trace s \<or> trace s' = trace s @ [Delay 300])))
   \<and>
   (activeUnload s \<and> \<not> running (finishActiveUnloadLock s) \<longrightarrow>
      unloads E (c # cs) s =
        Some (s\<lparr>finishActiveUnloadLock := (finishActiveUnloadLock s)
                 \<lparr>running := True,
                  invoked := invoked (finishActiveUnloadLock s) @ [c],
                  pending := pending (finishActiveUnloadLock s) @ [c],
                  settledCalls := settledCalls (finishActiveUnloadLock s) @
                    map (\<lambda>c. (c, Fulfilled Undefined)) cs\<rparr>,
                trace := trace s @ [Delay 300]\<rparr>))
   \<and>
   (activeUnload s \<and> \<not> running (finishActiveUnloadLock s) \<and>
    listeners (finishActiveUnloadLock s) = [] \<and> pending (finishActiveUnloadLock s) = [] \<longrightarrow>
      (\<exists>s'. unloads E (c # cs) s = Some s' \<and>
         finishActiveUnload_resume c s' =
           s\<lparr>activeUnload := False,
             finishActiveUnloadLock := (finishActiveUnloadLock s)
                 \<lparr>running := False,
                  invoked := invoked (finishActiveUnloadLock s) @ [c],
                  pending := [],
                  settledCalls := settledCalls (finishActiveUnloadLock s) @
                    map (\<lambda>c. (c, Fulfilled Undefined)) cs @ [(c, Fulfilled Undefined)]\<rparr>,
             trace := trace s @ [Delay 300]\<rparr>))
   \<and>
   (\<not> activeUnload s \<longrightarrow> onPageUnload E c s = map_option snd (doBack E 1 True s))"
proof (intro conjI impI)
  assume a: "activeUnload s"
  show "\<exists>s'. onPageUnload E c s = Some s' \<and> history s' = history s \<and> world s' = world s \<and>
            activeUnload s' \<and> (trace s' = trace s \<or> trace s' = trace s @ [Delay 300])"
    using a by (cases "running (finishActiveUnloadLock s)")
      (simp_all add: onPageUnload_def finishActiveUnload_discarded finishActiveUnload_started)
next
  assume a: "activeUnload s \<and> \<not> running (finishActiveUnloadLock s)"
  then show "unloads E (c # cs) s =
        Some (s\<lparr>finishActiveUnloadLock := (finishActiveUnloadLock s)
                 \<lparr>running := True,
                  invoked := invoked (finishActiveUnloadLock s) @ [c],
                  pending := pending (finishActiveUnloadLock s) @ [c],
                  settledCalls := settledCalls (finishActiveUnloadLock s) @
                    map (\<lambda>c. (c, Fulfilled Undefined)) cs\<rparr>,
                trace := trace s @ [Delay 300]\<rparr>)"
    by (intro unloads_burst) simp_all
next
  assume a: "activeUnload s \<and> \<not> running (finishActiveUnloadLock s) \<and>
    listeners (finishActiveUnloadLock s) = [] \<and> pending (finishActiveUnloadLock s) = []"
  let ?s' = "s\<lparr>finishActiveUnloadLock := (finishActiveUnloadLock s)
                 \<lparr>running := True,
                  invoked := invoked (finishActiveUnloadLock s) @ [c],
                  pending := pending (finishActiveUnloadLock s) @ [c],
                  settledCalls := settledCalls (finishActiveUnloadLock s) @
                    map (\<lambda>c. (c, Fulfilled Undefined)) cs\<rparr>,
                trace := trace s @ [Delay 300]\<rparr>"
  from a have 1: "unloads E (c # cs) s = Some ?s'" by (intro unloads_burst) simp_all
  from a have 2: "finishActiveUnload_resume c ?s' =
           s\<lparr>activeUnload := False,
             finishActiveUnloadLock := (finishActiveUnloadLock s)
                 \<lparr>running := False,
                  invoked := invoked (finishActiveUnloadLock s) @ [c],
                  pending := [],
                  settledCalls := settledCalls (finishActiveUnloadLock s) @
                    map (\<lambda>c. (c, Fulfilled Undefined)) cs @ [(c, Fulfilled Undefined)]\<rparr>,
             trace := trace s @ [Delay 300]\<rparr>"
    by (simp add: finishActiveUnload_resume_def settle_def finishActiveUnload_op_def
        handleRunFinish_Nil)
  from 1 2 show "\<exists>s'. unloads E (c # cs) s = Some s' \<and>
         finishActiveUnload_resume c s' =
           s\<lparr>activeUnload := False,
             finishActiveUnloadLock := (finishActiveUnloadLock s)
                 \<lparr>running := False,
                  invoked := invoked (finishActiveUnloadLock s) @ [c],
                  pending := [],
                  settledCalls := settledCalls (finishActiveUnloadLock s) @
                    map (\<lambda>c. (c, Fulfilled Undefined)) cs @ [(c, Fulfilled Undefined)]\<rparr>,
             trace := trace s @ [Delay 300]\<rparr>"
    by blast
next
  assume "\<not> activeUnload s"
  then show "onPageUnload E c s = map_option snd (doBack E 1 True s)"
    by (simp add: onPageUnload_def)
qed

theorem onPageUnload_routing_witness:
  "(\<exists>s'. unloads simulator [0, 1, 2]
        ((sim_navigator [sim_route ''/a'' False] 2 None)\<lparr>activeUnload := True\<rparr>) = Some s' \<and>
      activeUnload s' \<and>
      running (finishActiveUnloadLock s') \<and>
      invoked (finishActiveUnloadLock s') = [0] \<and>
      settledCalls (finishActiveUnloadLock s') = [(1, Fulfilled Undefined), (2, Fulfilled Undefined)] \<and>
      trace s' = [Delay 300] \<and>
      history s' = history (sim_navigator [sim_route ''/a'' False] 2 None) \<and>
      world s' = world (sim_navigator [sim_route ''/a'' False] 2 None) \<and>
      finishActiveUnload_resume 0 s' =
        (sim_navigator [sim_route ''/a'' False] 2 None)
          \<lparr>finishActiveUnloadLock :=
             \<lparr>running = False, listeners = [], invoked = [0], pending = [], resolved = [],
              settledCalls = [(1, Fulfilled Undefined), (2, Fulfilled Undefined),
                              (0, Fulfilled Undefined)]\<rparr>,
           trace := [Delay 300]\<rparr>)
   \<and>
   (\<exists>s'. onPageUnload simulator 0 (sim_navigator [sim_route ''/a'' False] 2 None) = Some s' \<and>
      trace s' = [HistoryBack 1] \<and> routes (history s') = [sim_route [] False])"
proof (intro conjI)
  let ?s0 = "sim_navigator [sim_route ''/a'' False] 2 None"
  let ?s1 = "?s0\<lparr>activeUnload := True\<rparr>"
  have 1: "activeUnload ?s1 \<and> \<not> running (finishActiveUnloadLock ?s1) \<and>
      listeners (finishActiveUnloadLock ?s1) = [] \<and> pending (finishActiveUnloadLock ?s1) = []"
    by (simp add: sim_navigator_def sim_defs)
  then have free: "activeUnload ?s1 \<and> \<not> running (finishActiveUnloadLock ?s1)" by simp
  from onPageUnload_routing [of ?s1 simulator 0 "[1, 2]", THEN conjunct2, THEN conjunct1] free
    onPageUnload_routing [of ?s1 simulator 0 "[1, 2]", THEN conjunct2, THEN conjunct2, THEN conjunct1] 1
  show "\<exists>s'. unloads simulator [0, 1, 2] ?s1 = Some s' \<and>
      activeUnload s' \<and>
      running (finishActiveUnloadLock s') \<and>
      invoked (finishActiveUnloadLock s') = [0] \<and>
      settledCalls (finishActiveUnloadLock s') = [(1, Fulfilled Undefined), (2, Fulfilled Undefined)] \<and>
      trace s' = [Delay 300] \<and> history s' = history ?s0 \<and> world s' = world ?s0 \<and>
      finishActiveUnload_resume 0 s' =
        ?s0\<lparr>finishActiveUnloadLock :=
             \<lparr>running = False, listeners = [], invoked = [0], pending = [], resolved = [],
              settledCalls = [(1, Fulfilled Undefined), (2, Fulfilled Undefined),
                              (0, Fulfilled Undefined)]\<rparr>,
           trace := [Delay 300]\<rparr>"
    by (simp add: sim_navigator_def sim_defs)
  have 2: "\<not> activeUnload ?s0"
    by (simp add: sim_navigator_def sim_defs)
  from onPageUnload_routing [of ?s0 simulator 0 "[]", THEN conjunct2, THEN conjunct2, THEN conjunct2] 2
  show "\<exists>s'. onPageUnload simulator 0 ?s0 = Some s' \<and>
      trace s' = [HistoryBack 1] \<and> routes (history s') = [sim_route [] False]"
    by (simp add: doBack_def Let_def History_back_def History_length_def routes_def
        sim_navigator_def sim_route_def sim_defs)
qed

end
